theory Spec2Isabelle
  imports Complex_Main "HOL-Library.Word"
begin

unbundle bit_operations_syntax

section \<open>The speedometer corrector firmware (firmware/speed_correction.ino)\<close>

text \<open>
  The firmware runs on an ATmega328 (Arduino Uno): \<open>int\<close> and \<open>unsigned int\<close> have 16
  bits, \<open>long\<close>, \<open>unsigned long\<close>, \<open>int32_t\<close> and \<open>uint32_t\<close> have 32 bits. Machine
  integers are words of that width; a signed operation that overflows (undefined in
  C++) wraps in the model, and every such place is marked.

  On this target \<open>double\<close> is the same 32-bit type as \<open>float\<close>, so every floating
  operation of the sketch is an IEEE-754 binary32 operation, rounded to nearest with
  ties to even; the type \<open>f32\<close> below has the finite values, the two infinities and
  NaN. The sign of a zero is not modelled: every zero is the positive zero. (The
  sign of a zero shows only where the zero is a divisor. The divisors of the sketch
  are constants, a count times a constant, differences, and a sum with a table
  entry; none of them is a negative zero unless a table entry is one, and neither the
  initial table nor a command puts one in the table.)

  Where the C++ has undefined behaviour (a floating value converted to \<open>uint32_t\<close>
  that is out of range, a store outside the table) the model stops with a \<open>fault\<close>.
\<close>

subsection \<open>Binary32 arithmetic\<close>

datatype f32 = Finite real | PInf | NInf | NaN

text \<open>\<open>2^k\<close> for an integer \<open>k\<close>.\<close>

definition pow2 :: "int \<Rightarrow> real" where
  "pow2 k = (if 0 \<le> k then 2 ^ nat k else 1 / 2 ^ nat (- k))"

text \<open>
  The exponent \<open>e\<close> with \<open>2^e \<le> x < 2^(e+1)\<close>, found by halving or doubling; 128
  steps cover the normal range of binary32, from \<open>2^-126\<close> to below \<open>2^128\<close>.
\<close>

fun floor_log2_aux :: "nat \<Rightarrow> real \<Rightarrow> int" where
  "floor_log2_aux 0 x = 0"
| "floor_log2_aux (Suc n) x =
     (if 2 \<le> x then floor_log2_aux n (x / 2) + 1
      else if x < 1 then floor_log2_aux n (x * 2) - 1
      else 0)"

definition floor_log2 :: "real \<Rightarrow> int" where
  "floor_log2 x = floor_log2_aux 128 x"

text \<open>The nearest integer, the even one of the two when they are equally near.\<close>

definition round_even :: "real \<Rightarrow> int" where
  "round_even q =
     (let f = \<lfloor>q\<rfloor>; d = q - of_int f
      in if d < 1 / 2 then f
         else if 1 / 2 < d then f + 1
         else if even f then f else f + 1)"

text \<open>
  The exponent of the unit in the last place: 24 significant bits in the normal
  range, the fixed unit \<open>2^-149\<close> below it.
\<close>

definition ulp_exponent :: "real \<Rightarrow> int" where
  "ulp_exponent x = (if \<bar>x\<bar> < pow2 (- 126) then - 149 else floor_log2 \<bar>x\<bar> - 23)"

text \<open>
  The binary32 value of an exact result: the nearest multiple of the unit in the
  last place, an infinity when that is \<open>2^128\<close> or more in magnitude.
\<close>

definition round32 :: "real \<Rightarrow> f32" where
  "round32 x =
     (if pow2 128 \<le> \<bar>x\<bar> then (if 0 < x then PInf else NInf)
      else
        let k = ulp_exponent x;
            y = of_int (round_even (x / pow2 k)) * pow2 k
        in if pow2 128 \<le> \<bar>y\<bar> then (if 0 < x then PInf else NInf) else Finite y)"

text \<open>The sign of a value (a zero and NaN count as not negative).\<close>

fun is_negative :: "f32 \<Rightarrow> bool" where
  "is_negative (Finite x) = (x < 0)"
| "is_negative NInf = True"
| "is_negative PInf = False"
| "is_negative NaN = False"

definition infinity :: "bool \<Rightarrow> f32" where
  "infinity negative = (if negative then NInf else PInf)"

fun fneg :: "f32 \<Rightarrow> f32" where
  "fneg (Finite x) = Finite (- x)"
| "fneg PInf = NInf"
| "fneg NInf = PInf"
| "fneg NaN = NaN"

fun fabs :: "f32 \<Rightarrow> f32" where
  "fabs (Finite x) = Finite \<bar>x\<bar>"
| "fabs PInf = PInf"
| "fabs NInf = PInf"
| "fabs NaN = NaN"

fun fadd :: "f32 \<Rightarrow> f32 \<Rightarrow> f32" where
  "fadd (Finite x) (Finite y) = round32 (x + y)"
| "fadd NaN b = NaN"
| "fadd a NaN = NaN"
| "fadd PInf NInf = NaN"
| "fadd NInf PInf = NaN"
| "fadd PInf b = PInf"
| "fadd NInf b = NInf"
| "fadd a PInf = PInf"
| "fadd a NInf = NInf"

definition fsub :: "f32 \<Rightarrow> f32 \<Rightarrow> f32" where
  "fsub a b = fadd a (fneg b)"

fun fmul :: "f32 \<Rightarrow> f32 \<Rightarrow> f32" where
  "fmul (Finite x) (Finite y) = round32 (x * y)"
| "fmul NaN b = NaN"
| "fmul a NaN = NaN"
| "fmul a b =
     (if a = Finite 0 \<or> b = Finite 0 then NaN
      else infinity (is_negative a \<noteq> is_negative b))"

fun fdiv :: "f32 \<Rightarrow> f32 \<Rightarrow> f32" where
  "fdiv (Finite x) (Finite y) =
     (if y = 0 then (if x = 0 then NaN else infinity (x < 0)) else round32 (x / y))"
| "fdiv NaN b = NaN"
| "fdiv a NaN = NaN"
| "fdiv (Finite x) b = Finite 0"
| "fdiv a (Finite y) = infinity (is_negative a \<noteq> (y < 0))"
| "fdiv a b = NaN"

text \<open>\<open>a < b\<close> on binary32 values; a comparison with NaN is false.\<close>

fun flt :: "f32 \<Rightarrow> f32 \<Rightarrow> bool" where
  "flt (Finite x) (Finite y) = (x < y)"
| "flt NaN b = False"
| "flt a NaN = False"
| "flt a NInf = False"
| "flt PInf b = False"
| "flt a b = True"

text \<open>An integer converted to binary32.\<close>

definition f32_of_int :: "int \<Rightarrow> f32" where
  "f32_of_int i = round32 (of_int i)"

subsection \<open>Data\<close>

type_synonym u8 = "8 word"
type_synonym u16 = "16 word"
type_synonym u32 = "32 word"

text \<open>\<open>struct CorrectionFreq\<close>, a point of the correction curve.\<close>

record CorrectionFreq =
  inputFreq :: f32
  outputFreq :: f32

text \<open>\<open>enum State\<close>, the states of the self-test ramp.\<close>

datatype State = OPEN_CER_RAISE | OPEN_CER_LOWER | NORMAL

text \<open>
  What the firmware prints on the serial line, one constructor per message; the
  numbers a message carries are kept, their formatting is not.
\<close>

datatype diag =
    NoConfigurationFound
  | ConfigurationLoaded
  | EndRAISE u32
  | EndLOWER u32
  | StopDetected u32 u32 u32 u32 u32
  | LineReceived
  | SavingConf
  | FailedToParseIndex
  | FailedToParseInput
  | FailedToParseOutput
  | UpdatedValue int f32 f32

text \<open>Where the C++ has undefined behaviour (see above).\<close>

datatype fault =
    FloatToIntOutOfRange
  | TableIndexOutOfBounds int

text \<open>
  The non-volatile store, read and written one byte at an address
  (\<open>EEPROM.read\<close>, \<open>EEPROM.write\<close> of the Arduino core).
\<close>

type_synonym eeprom = "nat \<Rightarrow> u8"

text \<open>
  The global variables of the sketch, the registers of timer 1 it uses, the two
  output pins, the non-volatile store and the serial output.
\<close>

record state =
  gLastCounter :: u16
  gInputPeriod :: u32
  gOutputPeriod :: u32
  gOverflowCounter :: u16
  gStopped :: bool
  gCaptureLive :: bool
  gDisplayCapture :: bool
  gLastOutput :: bool
  gLastInputFreq :: f32
  gInputString :: string
  gStringComplete :: bool
  gFreqTable :: "CorrectionFreq list"
  ovf :: bool
  gLoopPerSec :: u32
  gState :: State
  gLastUpdate :: u16
  ICR1 :: u16
  TCNT1 :: u16
  OCR1A :: u16
  TIFR1 :: u8
  TCCR1B :: u8
  pin12 :: bool
  pin13 :: bool
  EEPROM :: eeprom
  Serial :: "diag list"

subsection \<open>Constants\<close>

text \<open>
  \<open>#define TICK_VALUE ((1/16000000.0) * 64.0)\<close>: one timer tick, in seconds. The
  decimal constants of the sketch (\<open>16000000.0\<close>, \<open>64.0\<close>, \<open>50.0\<close>, \<open>3600.0\<close>,
  \<open>1000.0\<close>, \<open>300.0\<close>, \<open>2.5\<close>) are binary32 values as they are written.
\<close>

definition TICK_VALUE :: f32 where
  "TICK_VALUE = fmul (fdiv (f32_of_int 1) (Finite 16000000)) (Finite 64)"

definition PULSE_PER_KM :: int where
  "PULSE_PER_KM = 2683"

text \<open>\<open>#define FREQ_50 (((PULSE_PER_KM * 50.0) / 3600.0))\<close>, and the like.\<close>

definition FREQ_50 :: f32 where
  "FREQ_50 = fdiv (fmul (f32_of_int PULSE_PER_KM) (Finite 50)) (Finite 3600)"

definition FREQ_100 :: f32 where
  "FREQ_100 = fdiv (fmul (f32_of_int PULSE_PER_KM) (Finite 100)) (Finite 3600)"

definition FREQ_150 :: f32 where
  "FREQ_150 = fdiv (fmul (f32_of_int PULSE_PER_KM) (Finite 150)) (Finite 3600)"

text \<open>
  Bit numbers of the timer registers, from the device header of the ATmega328
  (\<open>avr/io.h\<close>): the overflow flag in \<open>TIFR1\<close> and the edge select bit in \<open>TCCR1B\<close>.
  \<open>TOV0\<close> is the same bit number in the flag register of timer 0.
\<close>

definition TOV1 :: nat where
  "TOV1 = 0"

definition TOV0 :: nat where
  "TOV0 = 0"

definition ICES1 :: nat where
  "ICES1 = 6"

text \<open>\<open>_BV(bit)\<close> is \<open>1 << bit\<close>.\<close>

definition BV :: "nat \<Rightarrow> u8" where
  "BV b = push_bit b 1"

text \<open>
  The initialisers of the globals, with the registers and pins at their reset value,
  an erased store and nothing printed yet. \<open>setup\<close> configures the timer and the pins
  and calls \<open>loadConf\<close>; it assigns none of the other globals.
\<close>

definition initial_state :: state where
  "initial_state = \<lparr>
     gLastCounter = 0,
     gInputPeriod = 0,
     gOutputPeriod = 0,
     gOverflowCounter = 0,
     gStopped = True,
     gCaptureLive = False,
     gDisplayCapture = False,
     gLastOutput = False,
     gLastInputFreq = Finite 0,
     gInputString = [],
     gStringComplete = False,
     gFreqTable = [
       \<lparr>inputFreq = Finite 0, outputFreq = Finite 0\<rparr>,
       \<lparr>inputFreq = FREQ_50, outputFreq = FREQ_50\<rparr>,
       \<lparr>inputFreq = FREQ_100, outputFreq = FREQ_100\<rparr>,
       \<lparr>inputFreq = FREQ_150, outputFreq = FREQ_150\<rparr>],
     ovf = False,
     gLoopPerSec = 0,
     gState = NORMAL,
     gLastUpdate = 0,
     ICR1 = 0,
     TCNT1 = 0,
     OCR1A = 0,
     TIFR1 = 0,
     TCCR1B = 0,
     pin12 = False,
     pin13 = False,
     EEPROM = (\<lambda>_. 255),
     Serial = []
   \<rparr>"

subsection \<open>Calibration persistence: \<open>saveConf\<close> and \<open>loadConf\<close>\<close>

text \<open>
  Both functions go through the table as bytes,
  \<open>(const byte*)(const void*)gFreqTable\<close>, so here the table is its object
  representation: \<open>sizeof(gFreqTable)\<close> bytes, four entries of two 4-byte floats.
\<close>

definition sizeof_gFreqTable :: nat where
  "sizeof_gFreqTable = 32"

text \<open>The magic, as the bytes that \<open>EEPROM.write\<close> receives for the three characters.\<close>

definition magic_S :: u8 where
  "magic_S = of_char CHR ''S''"

definition magic_N :: u8 where
  "magic_N = of_char CHR ''N''"

definition magic_X :: u8 where
  "magic_X = of_char CHR ''X''"

text \<open>
  \<open>for (int i=0; i<sizeof(gFreqTable); ++i) EEPROM.write(ee++, *p++);\<close>
  with \<open>p\<close> at offset \<open>i\<close> of the table.
\<close>

function saveConf_loop :: "nat \<Rightarrow> nat \<Rightarrow> u8 list \<Rightarrow> eeprom \<Rightarrow> eeprom" where
  "saveConf_loop i ee tab E =
     (if i < sizeof_gFreqTable
      then saveConf_loop (i + 1) (ee + 1) tab (E(ee := tab ! i))
      else E)"
  by pat_completeness auto
termination
  by (relation "measure (\<lambda>(i, ee, tab, E). sizeof_gFreqTable - i)") auto

declare saveConf_loop.simps [simp del]

definition saveConf :: "u8 list \<Rightarrow> eeprom \<Rightarrow> eeprom" where
  "saveConf tab E =
     (let E1 = E(0 := magic_S);
          E2 = E1(1 := magic_N);
          E3 = E2(2 := magic_X)
      in saveConf_loop 0 3 tab E3)"

text \<open>
  \<open>for (int i=0; i<sizeof(gFreqTable); ++i) *p++ = EEPROM.read(ee++);\<close>
  The table has \<open>sizeof(gFreqTable)\<close> bytes, so every store is in range.
\<close>

function loadConf_loop :: "nat \<Rightarrow> nat \<Rightarrow> eeprom \<Rightarrow> u8 list \<Rightarrow> u8 list" where
  "loadConf_loop i ee E tab =
     (if i < sizeof_gFreqTable
      then loadConf_loop (i + 1) (ee + 1) E (tab[i := E ee])
      else tab)"
  by pat_completeness auto
termination
  by (relation "measure (\<lambda>(i, ee, E, tab). sizeof_gFreqTable - i)") auto

declare loadConf_loop.simps [simp del]

text \<open>\<open>loadConf\<close> returns the table and the message it prints.\<close>

definition loadConf :: "eeprom \<Rightarrow> u8 list \<Rightarrow> u8 list \<times> diag" where
  "loadConf E tab =
     (let s = E 0; n = E 1; x = E 2
      in if s \<noteq> magic_S \<or> n \<noteq> magic_N \<or> x \<noteq> magic_X
         then (tab, NoConfigurationFound)
         else (loadConf_loop 0 3 E tab, ConfigurationLoaded))"

subsection \<open>Interrupt handlers\<close>

text \<open>
  A handler runs with interrupts disabled from its first to its last statement
  (\<open>cli()\<close>, and \<open>SREG\<close> restored at the end), so it is one step on the state.

  Three things the hardware does around the handlers: an edge on the input pin latches
  the counter into \<open>ICR1\<close>; a wrap of the counter sets the flag \<open>TOV1\<close> of \<open>TIFR1\<close>; the
  flag is cleared when the overflow vector is taken.
\<close>

definition hw_capture :: "u16 \<Rightarrow> state \<Rightarrow> state" where
  "hw_capture t s = s\<lparr>ICR1 := t\<rparr>"

definition hw_wrap :: "state \<Rightarrow> state" where
  "hw_wrap s = s\<lparr>TIFR1 := TIFR1 s OR BV TOV1\<rparr>"

definition hw_take_overflow_vector :: "state \<Rightarrow> state" where
  "hw_take_overflow_vector s = s\<lparr>TIFR1 := TIFR1 s AND NOT (BV TOV1)\<rparr>"

text \<open>
  \<open>ISR (TIMER1_CAPT_vect)\<close>. The difference of the two counters is computed on
  \<open>int32_t\<close> and stored in the \<open>uint32_t\<close> \<open>gInputPeriod\<close>, that is modulo \<open>2^32\<close>.
  \<open>int32_t(gOverflowCounter) * 0x10000\<close> overflows \<open>int32_t\<close> from a counter of
  \<open>0x8000\<close> on; it wraps here.
\<close>

definition TIMER1_CAPT_vect :: "state \<Rightarrow> state" where
  "TIMER1_CAPT_vect s =
     (let tc1 = ICR1 s;
          s1 = s\<lparr>TCCR1B := TCCR1B s XOR push_bit ICES1 1\<rparr>;
          s2 =
            (if gCaptureLive s1
             then
               let s3 = s1\<lparr>gInputPeriod := ucast tc1 - ucast (gLastCounter s1)\<rparr>;
                   s4 = s3\<lparr>gInputPeriod :=
                          gInputPeriod s3 + ucast (gOverflowCounter s3) * 0x10000\<rparr>;
                   s5 = s4\<lparr>gOverflowCounter := 0\<rparr>
               in if TIFR1 s5 AND BV TOV1 \<noteq> 0 \<and> tc1 < 0xffff
                  then s5\<lparr>gInputPeriod := gInputPeriod s5 + 0x10000,
                         gOverflowCounter := - 1\<rparr>
                  else s5
             else
               let s3 = s1\<lparr>gOverflowCounter := 0\<rparr>;
                   s4 = (if TIFR1 s3 AND BV TOV0 \<noteq> 0 \<and> tc1 < 0xffff
                         then s3\<lparr>gOverflowCounter := - 1\<rparr>
                         else s3);
                   s5 = s4\<lparr>gLastOutput := \<not> gLastOutput s4\<rparr>
               in s5\<lparr>pin13 := gLastOutput s5\<rparr>)
      in s2\<lparr>gLastCounter := tc1, gCaptureLive := True, ICR1 := 0,
            gDisplayCapture := True\<rparr>)"

text \<open>\<open>ISR (TIMER1_OVF_vect)\<close>.\<close>

definition TIMER1_OVF_vect :: "state \<Rightarrow> state" where
  "TIMER1_OVF_vect s =
     (let s1 = s\<lparr>gOverflowCounter := gOverflowCounter s + 1\<rparr>;
          s2 = s1\<lparr>pin12 := ovf s1\<rparr>
      in s2\<lparr>ovf := \<not> ovf s2\<rparr>)"

text \<open>
  \<open>ISR (TIMER1_COMPA_vect)\<close>. \<open>OCR1A + gOutputPeriod\<close> is a 32-bit sum, stored in
  the 16-bit register.
\<close>

definition TIMER1_COMPA_vect :: "state \<Rightarrow> state" where
  "TIMER1_COMPA_vect s =
     (if \<not> gStopped s
      then
        let s1 = s\<lparr>gLastOutput := \<not> gLastOutput s\<rparr>;
            s2 = s1\<lparr>pin13 := gLastOutput s1\<rparr>
        in s2\<lparr>OCR1A := ucast (ucast (OCR1A s2) + gOutputPeriod s2)\<rparr>
      else s)"

subsection \<open>The main loop: self-test ramp\<close>

text \<open>
  A floating value converted to \<open>uint32_t\<close>: truncated towards zero when the
  truncated value fits; for every other value, an infinity and NaN included, the
  conversion is undefined in C++.
\<close>

fun to_uint32 :: "f32 \<Rightarrow> fault + u32" where
  "to_uint32 (Finite x) =
     (if - 1 < x \<and> x < 2 ^ 32
      then Inr (word_of_int (if 0 \<le> x then \<lfloor>x\<rfloor> else 0))
      else Inl FloatToIntOutOfRange)"
| "to_uint32 a = Inl FloatToIntOutOfRange"

text \<open>\<open>double freq = 3 + 300.0 * (now / 1000.0);\<close>\<close>

definition raise_freq :: "u32 \<Rightarrow> f32" where
  "raise_freq now =
     fadd (f32_of_int 3) (fmul (Finite 300) (fdiv (f32_of_int (uint now)) (Finite 1000)))"

text \<open>
  \<open>double freq = 3 + 300.0 * ((1000-(now - 1000)) / 1000.0);\<close>
  where \<open>1000-(now - 1000)\<close> is \<open>unsigned long\<close> arithmetic.
\<close>

definition lower_freq :: "u32 \<Rightarrow> f32" where
  "lower_freq now =
     fadd (f32_of_int 3)
       (fmul (Finite 300) (fdiv (f32_of_int (uint (1000 - (now - 1000)))) (Finite 1000)))"

text \<open>\<open>uint32_t period = 1.0 / freq / TICK_VALUE;\<close>\<close>

definition ramp_period :: "f32 \<Rightarrow> fault + u32" where
  "ramp_period freq = to_uint32 (fdiv (fdiv (Finite 1) freq) TICK_VALUE)"

text \<open>The branch \<open>gState == OPEN_CER_RAISE\<close> of \<open>loop\<close>, to its \<open>return\<close>.\<close>

definition loop_RAISE :: "u32 \<Rightarrow> state \<Rightarrow> fault + state" where
  "loop_RAISE now s =
     (case ramp_period (raise_freq now) of
        Inl f \<Rightarrow> Inl f
      | Inr period \<Rightarrow>
          let s1 = s\<lparr>gOutputPeriod := period\<rparr>;
              s2 = (if gStopped s1
                    then s1\<lparr>OCR1A := ucast (ucast (TCNT1 s1) + drop_bit 1 (gOutputPeriod s1))\<rparr>
                    else s1);
              s3 = s2\<lparr>gStopped := False, gCaptureLive := True\<rparr>
          in Inr (if now > 1000
                  then s3\<lparr>gState := OPEN_CER_LOWER, Serial := Serial s3 @ [EndRAISE now]\<rparr>
                  else s3))"

text \<open>The branch \<open>gState == OPEN_CER_LOWER\<close> of \<open>loop\<close>, to its \<open>return\<close>.\<close>

definition loop_LOWER :: "u32 \<Rightarrow> state \<Rightarrow> fault + state" where
  "loop_LOWER now s =
     (case ramp_period (lower_freq now) of
        Inl f \<Rightarrow> Inl f
      | Inr period \<Rightarrow>
          let s1 = s\<lparr>gOutputPeriod := period\<rparr>
          in Inr (if now > 2000
                  then s1\<lparr>gState := NORMAL, gStopped := True, gCaptureLive := False,
                         Serial := Serial s1 @ [EndLOWER now]\<rparr>
                  else s1))"

subsection \<open>The main loop: the control tick\<close>

text \<open>\<open>if (overFlow >= 2 or period >= 0x10000)\<close>, on the two snapshots.\<close>

definition stop_condition :: "u32 \<Rightarrow> u32 \<Rightarrow> bool" where
  "stop_condition overFlow period \<longleftrightarrow> overFlow \<ge> 2 \<or> period \<ge> 0x10000"

text \<open>
  The snapshot of the shared variables and the check for the stop condition. The
  result is the local \<open>period\<close> and the state. The message printed carries \<open>now\<close>,
  \<open>period\<close> (already set to 0), \<open>lastCapture\<close>, \<open>tcnt1\<close> and \<open>overFlow\<close>.
\<close>

definition tick_input :: "u32 \<Rightarrow> state \<Rightarrow> u32 \<times> state" where
  "tick_input now s =
     (let period = gInputPeriod s;
          lastCapture = (ucast (gLastCounter s) :: u32);
          overFlow = (ucast (gOverflowCounter s) :: u32);
          tcnt1 = (ucast (TCNT1 s) :: u32)
      in if stop_condition overFlow period
         then
           let s1 = s\<lparr>gOutputPeriod := 0, gInputPeriod := 0, gStopped := True,
                      gCaptureLive := False\<rparr>
           in (0, s1\<lparr>Serial := Serial s1 @ [StopDetected now 0 lastCapture tcnt1 overFlow]\<rparr>)
         else (period, s))"

text \<open>
  \<open>inFreq = 1.0 / (period * 2 * TICK_VALUE)\<close> for a period other than 0, where
  \<open>period * 2\<close> is a \<open>uint32_t\<close> product. After the stop check the period is below
  \<open>0x10000\<close>, so the product is not 0.
\<close>

definition input_freq :: "u32 \<Rightarrow> f32" where
  "input_freq period =
     (if period \<noteq> 0
      then fdiv (Finite 1) (fmul (f32_of_int (uint (period * 2))) TICK_VALUE)
      else Finite 0)"

text \<open>\<open>const float MAX_VAR_PER_CYCLE = 2.5f;\<close>\<close>

definition MAX_VAR_PER_CYCLE :: f32 where
  "MAX_VAR_PER_CYCLE = Finite 2.5"

text \<open>
  The filter on the variation of the input frequency:
  \<open>float deltaFreq = inFreq - gLastInputFreq;
  if (fabs(deltaFreq) > MAX_VAR_PER_CYCLE) \<dots>\<close>
\<close>

definition filter_freq :: "f32 \<Rightarrow> f32 \<Rightarrow> f32" where
  "filter_freq inFreq lastFreq =
     (let deltaFreq = fsub inFreq lastFreq
      in if flt MAX_VAR_PER_CYCLE (fabs deltaFreq)
         then (if flt (Finite 0) deltaFreq
               then fadd lastFreq MAX_VAR_PER_CYCLE
               else fsub lastFreq MAX_VAR_PER_CYCLE)
         else inFreq)"

definition tick_filter :: "u32 \<Rightarrow> state \<Rightarrow> f32 \<times> state" where
  "tick_filter period s =
     (let inFreq = filter_freq (input_freq period) (gLastInputFreq s)
      in (inFreq, s\<lparr>gLastInputFreq := inFreq\<rparr>))"

text \<open>
  The selection of the correction range; \<open>index\<close> is a \<open>uint8_t\<close> that only takes
  the values 1, 2 and 3. The table has four entries, so \<open>tab ! 0\<close> to \<open>tab ! 3\<close> are
  its entries.
\<close>

definition select_index :: "CorrectionFreq list \<Rightarrow> f32 \<Rightarrow> nat" where
  "select_index tab inFreq =
     (if flt inFreq (inputFreq (tab ! 1)) then 1
      else if flt inFreq (inputFreq (tab ! 2)) then 2
      else 3)"

text \<open>
  \<open>float di = gFreqTable[index].inputFreq - gFreqTable[index-1].inputFreq;
  float doo = gFreqTable[index].outputFreq - gFreqTable[index-1].outputFreq;
  outFreq = (inFreq - gFreqTable[index-1].inputFreq) / di * doo;
  outFreq += gFreqTable[index-1].outputFreq;\<close>
  A segment of width 0 gives an infinity or NaN, and the computation goes on.
\<close>

definition correct_freq :: "CorrectionFreq list \<Rightarrow> nat \<Rightarrow> f32 \<Rightarrow> f32" where
  "correct_freq tab index inFreq =
     (let di = fsub (inputFreq (tab ! index)) (inputFreq (tab ! (index - 1)));
          doo = fsub (outputFreq (tab ! index)) (outputFreq (tab ! (index - 1)));
          outFreq = fmul (fdiv (fsub inFreq (inputFreq (tab ! (index - 1)))) di) doo
      in fadd outFreq (outputFreq (tab ! (index - 1))))"

text \<open>
  The local \<open>outputPeriod\<close>: \<open>(1.0 / outFreq) / TICK_VALUE\<close> converted to
  \<open>uint32_t\<close>, or 0 without input.
\<close>

definition output_period :: "CorrectionFreq list \<Rightarrow> u32 \<Rightarrow> f32 \<Rightarrow> fault + u32" where
  "output_period tab period inFreq =
     (let index = select_index tab inFreq
      in if period \<noteq> 0
         then to_uint32 (fdiv (fdiv (Finite 1) (correct_freq tab index inFreq)) TICK_VALUE)
         else Inr 0)"

definition tick_output :: "u32 \<Rightarrow> f32 \<Rightarrow> state \<Rightarrow> fault + state" where
  "tick_output period inFreq s =
     (case output_period (gFreqTable s) period inFreq of
        Inl f \<Rightarrow> Inl f
      | Inr outputPeriod \<Rightarrow>
          let s1 = s\<lparr>gOutputPeriod := drop_bit 1 outputPeriod\<rparr>
          in Inr (if gStopped s1 \<and> outputPeriod \<noteq> 0
                  then s1\<lparr>OCR1A := ucast (ucast (TCNT1 s1) + drop_bit 1 outputPeriod),
                         gStopped := False\<rparr>
                  else s1))"

text \<open>
  \<open>if (now - gLastUpdate > 100) { ... }\<close>: \<open>gLastUpdate\<close> is an \<open>unsigned int\<close>, so
  the assignment \<open>gLastUpdate = now\<close> keeps the low 16 bits of \<open>now\<close>.
\<close>

definition loop_tick :: "u32 \<Rightarrow> state \<Rightarrow> fault + state" where
  "loop_tick now s =
     (if now - ucast (gLastUpdate s) > 100
      then
        let s0 = s\<lparr>gLastUpdate := ucast now\<rparr>;
            (period, s1) = tick_input now s0;
            (inFreq, s2) = tick_filter period s1
        in tick_output period inFreq s2
      else Inr s)"

subsection \<open>The main loop: commands\<close>

text \<open>
  \<open>myParseInt\<close>. The iterator \<open>it\<close> is the rest of the line, \<open>it == last\<close> the empty
  rest. \<open>ret * 10 + (c - '0')\<close> on \<open>int32_t\<close> overflows on a long run of digits; it
  wraps here.
\<close>

fun skip_spaces :: "string \<Rightarrow> string" where
  "skip_spaces [] = []"
| "skip_spaces (c # cs) = (if c = CHR '' '' then skip_spaces cs else c # cs)"

fun parse_digits :: "u32 \<Rightarrow> string \<Rightarrow> u32 \<times> string" where
  "parse_digits ret [] = (ret, [])"
| "parse_digits ret (c # cs) =
     (if (of_char CHR ''0'' :: nat) \<le> of_char c \<and> (of_char c :: nat) \<le> of_char CHR ''9''
      then parse_digits (ret * 10 + (of_char c - of_char CHR ''0'')) cs
      else (ret, cs))"

definition myParseInt :: "string \<Rightarrow> u32 \<times> string" where
  "myParseInt it =
     (let (ret, it1) = parse_digits 0 (skip_spaces it)
      in (ret, skip_spaces it1))"

text \<open>
  The configure command. \<open>int index\<close> receives the low 16 bits of the parsed
  \<open>int32_t\<close>; the two values are the parsed integers divided by \<open>1000.0f\<close>. A
  negative index passes \<open>index < 4\<close> and stores outside the table.
\<close>

definition configure :: "state \<Rightarrow> fault + state" where
  "configure s =
     (let (r1, it1) = myParseInt (gInputString s);
          index = sint (ucast r1 :: u16);
          ok1 = (it1 \<noteq> []);
          s1 = (if \<not> ok1 then s\<lparr>Serial := Serial s @ [FailedToParseIndex]\<rparr> else s);
          (r2, it2) = myParseInt it1;
          inVal = fdiv (f32_of_int (sint r2)) (Finite 1000);
          ok2 = (ok1 \<and> it2 \<noteq> []);
          s2 = (if \<not> ok2 then s1\<lparr>Serial := Serial s1 @ [FailedToParseInput]\<rparr> else s1);
          (r3, it3) = myParseInt it2;
          outVal = fdiv (f32_of_int (sint r3)) (Finite 1000);
          ok3 = (ok2 \<and> it3 = []);
          s3 = (if \<not> ok3 then s2\<lparr>Serial := Serial s2 @ [FailedToParseOutput]\<rparr> else s2);
          ok4 = (ok3 \<and> index < 4)
      in if ok4
         then (if 0 \<le> index
               then Inr (s3\<lparr>gFreqTable := (gFreqTable s3)
                                [nat index := \<lparr>inputFreq = inVal, outputFreq = outVal\<rparr>],
                             Serial := Serial s3 @ [UpdatedValue index inVal outVal]\<rparr>)
               else Inl (TableIndexOutOfBounds index))
         else Inr s3)"

text \<open>
  The processing of a complete line. \<open>saveConf\<close> reads the table as bytes; the
  object representation of the table is the parameter \<open>repr\<close>.
\<close>

definition loop_command :: "(CorrectionFreq list \<Rightarrow> u8 list) \<Rightarrow> state \<Rightarrow> fault + state" where
  "loop_command repr s =
     (if gStringComplete s
      then
        let s1 = s\<lparr>Serial := Serial s @ [LineReceived]\<rparr>
        in case (if gInputString s1 = ''SAVE''
                 then Inr (s1\<lparr>Serial := Serial s1 @ [SavingConf],
                              EEPROM := saveConf (repr (gFreqTable s1)) (EEPROM s1)\<rparr>)
                 else configure s1) of
             Inl f \<Rightarrow> Inl f
           | Inr s2 \<Rightarrow> Inr (s2\<lparr>gInputString := [], gStringComplete := False\<rparr>)
      else Inr s)"

subsection \<open>The main loop\<close>

text \<open>
  One pass of \<open>loop\<close> with \<open>millis()\<close> returning \<open>now\<close>. \<open>++gLoopPerSec\<close> is on
  \<open>int32_t\<close> and wraps here. The debug output at the end of \<open>loop\<close> is under
  \<open>and false\<close> and never runs.
\<close>

definition loop :: "(CorrectionFreq list \<Rightarrow> u8 list) \<Rightarrow> u32 \<Rightarrow> state \<Rightarrow> fault + state" where
  "loop repr now s =
     (if gState s = OPEN_CER_RAISE then loop_RAISE now s
      else if gState s = OPEN_CER_LOWER then loop_LOWER now s
      else
        case loop_tick now (s\<lparr>gLoopPerSec := gLoopPerSec s + 1\<rparr>) of
          Inl f \<Rightarrow> Inl f
        | Inr s1 \<Rightarrow> loop_command repr s1)"

subsection \<open>Auxiliary definitions for the statements\<close>

text \<open>
  A number that a \<open>float\<close> of the table can hold with room for the differences of
  the interpolation: a finite value that is its own rounding, below \<open>2^126\<close> in
  magnitude (the largest finite binary32 number is just below \<open>2^128\<close>).
\<close>

fun binary32 :: "f32 \<Rightarrow> bool" where
  "binary32 (Finite x) = (round32 x = Finite x \<and> \<bar>x\<bar> < pow2 126)"
| "binary32 a = False"

text \<open>A table of four points whose eight numbers are such numbers.\<close>

definition representable_table :: "CorrectionFreq list \<Rightarrow> bool" where
  "representable_table tab \<longleftrightarrow>
     length tab = 4
     \<and> list_all (\<lambda>e. binary32 (inputFreq e) \<and> binary32 (outputFreq e)) tab"

text \<open>The real number a finite value stands for.\<close>

fun valof :: "f32 \<Rightarrow> real" where
  "valof (Finite x) = x"
| "valof a = 0"

text \<open>What a command leaves behind: the table and the serial output, or the fault.\<close>

definition command_outcome :: "fault + state \<Rightarrow> fault + CorrectionFreq list \<times> diag list" where
  "command_outcome r = map_sum id (\<lambda>s. (gFreqTable s, Serial s)) r"

text \<open>
  A well-formed non-negative integer of a command line, in the words of the
  specification: a non-empty run of decimal digits, and the number it denotes.
\<close>

definition is_digit :: "char \<Rightarrow> bool" where
  "is_digit c \<longleftrightarrow> (of_char CHR ''0'' :: nat) \<le> of_char c \<and> (of_char c :: nat) \<le> of_char CHR ''9''"

fun digits_value :: "nat \<Rightarrow> string \<Rightarrow> nat" where
  "digits_value acc [] = acc"
| "digits_value acc (c # cs) = digits_value (acc * 10 + (of_char c - of_char CHR ''0'')) cs"

definition number :: "string \<Rightarrow> bool" where
  "number ds \<longleftrightarrow> ds \<noteq> [] \<and> list_all is_digit ds"

section \<open>Proofs\<close>

subsection \<open>Binary32 arithmetic\<close>

text \<open>
  Facts about the rounding: the exponent found by \<open>floor_log2\<close> is the right one, the
  rounded value is within half a unit in the last place of the exact one and keeps
  its sign, rounding is symmetric and idempotent, and it is monotone against a number
  of the grid. At the end, the rules that evaluate a rounding on a given number.
\<close>

lemma pow2_powr: "pow2 k = 2 powr (real_of_int k)"
proof (cases "0 \<le> k")
  case True
  then have "2 powr (real_of_int k) = (2::real) ^ nat k"
    by (simp add: powr_realpow [symmetric])
  then show ?thesis using True by (simp add: pow2_def)
next
  case False
  then have "real_of_int k = - real (nat (- k))" by simp
  then have "2 powr (real_of_int k) = 1 / (2::real) ^ nat (- k)"
    by (simp only: powr_minus powr_realpow [symmetric] inverse_eq_divide)
  then show ?thesis using False by (simp add: pow2_def)
qed

lemma pow2_pos: "0 < pow2 k"
  by (simp add: pow2_powr)

lemma pow2_add: "pow2 (a + b) = pow2 a * pow2 b"
  by (simp add: pow2_powr powr_add)

lemma pow2_Suc: "pow2 (k + 1) = 2 * pow2 k"
  by (simp add: pow2_powr powr_add)

lemma pow2_mono: "a \<le> b \<Longrightarrow> pow2 a \<le> pow2 b"
  by (simp add: pow2_powr)

lemma pow2_less_iff: "pow2 a < pow2 b \<longleftrightarrow> a < b"
  by (simp add: pow2_powr)

lemma pow2_of_nat: "0 \<le> k \<Longrightarrow> pow2 k = of_int (2 ^ nat k)"
  by (simp add: pow2_def)

lemma floor_log2_aux_bounds:
  "pow2 (- int n) \<le> x \<Longrightarrow> x < pow2 (int n + 1) \<Longrightarrow>
   pow2 (floor_log2_aux n x) \<le> x \<and> x < pow2 (floor_log2_aux n x + 1)
   \<and> - int n \<le> floor_log2_aux n x \<and> floor_log2_aux n x \<le> int n"
proof (induction n arbitrary: x)
  case 0
  then show ?case by (simp add: pow2_def)
next
  case (Suc n)
  show ?case
  proof (cases "2 \<le> x")
    case True
    have "pow2 (- int n) \<le> 1"
      using pow2_mono [of "- int n" 0] by (simp add: pow2_def)
    then have lo: "pow2 (- int n) \<le> x / 2" using True by simp
    have "x < 2 * pow2 (int n + 1)"
      using Suc.prems(2) pow2_Suc [of "int n + 1"] by (simp add: add.commute)
    then have hi: "x / 2 < pow2 (int n + 1)" by simp
    from Suc.IH [OF lo hi] show ?thesis
      using True pow2_Suc [of "floor_log2_aux n (x / 2)"]
        pow2_Suc [of "floor_log2_aux n (x / 2) + 1"]
      by (simp add: add.commute)
  next
    case False
    show ?thesis
    proof (cases "x < 1")
      case True
      have "pow2 (- int (Suc n) + 1) = 2 * pow2 (- int (Suc n))"
        by (rule pow2_Suc)
      then have lo: "pow2 (- int n) \<le> x * 2"
        using Suc.prems(1) by simp
      have "(2::real) \<le> pow2 (int n + 1)"
        using pow2_mono [of 1 "int n + 1"] by (simp add: pow2_def)
      then have hi: "x * 2 < pow2 (int n + 1)" using True by simp
      let ?e = "floor_log2_aux n (x * 2)"
      have ih: "pow2 ?e \<le> x * 2" "x * 2 < pow2 (?e + 1)" "- int n \<le> ?e" "?e \<le> int n"
        using Suc.IH [OF lo hi] by simp_all
      have "pow2 ?e = 2 * pow2 (?e - 1)"
        using pow2_Suc [of "?e - 1"] by simp
      moreover have "pow2 (?e + 1) = 2 * pow2 ?e"
        by (rule pow2_Suc)
      ultimately have "pow2 (?e - 1) \<le> x" "x < pow2 ?e"
        using ih(1,2) by linarith+
      then show ?thesis
        using True False ih(3,4) by simp
    next
      case nb: False
      then show ?thesis using False by (simp add: pow2_def)
    qed
  qed
qed

lemma floor_log2_bounds:
  assumes "pow2 (- 126) \<le> x" and "x < pow2 128"
  shows "pow2 (floor_log2 x) \<le> x" and "x < pow2 (floor_log2 x + 1)"
    and "- 126 \<le> floor_log2 x" and "floor_log2 x \<le> 127"
proof -
  have lo: "pow2 (- int 128) \<le> x"
    using assms(1) pow2_mono [of "- int 128" "- 126"] by simp
  have hi: "x < pow2 (int 128 + 1)"
    using assms(2) pow2_mono [of 128 "int 128 + 1"] by simp
  have b: "pow2 (floor_log2 x) \<le> x \<and> x < pow2 (floor_log2 x + 1)"
    using floor_log2_aux_bounds [OF lo hi] by (simp add: floor_log2_def)
  then show "pow2 (floor_log2 x) \<le> x" and "x < pow2 (floor_log2 x + 1)"
    by simp_all
  have "pow2 (- 126) < pow2 (floor_log2 x + 1)"
    using assms(1) b by linarith
  then show "- 126 \<le> floor_log2 x"
    by (simp add: pow2_less_iff)
  have "pow2 (floor_log2 x) < pow2 128"
    using assms(2) b by linarith
  then show "floor_log2 x \<le> 127"
    by (simp add: pow2_less_iff)
qed

lemma floor_log2_unique:
  assumes "pow2 e \<le> x" and "x < pow2 (e + 1)" and "- 126 \<le> e" and "e \<le> 127"
  shows "floor_log2 x = e"
proof -
  have lo: "pow2 (- 126) \<le> x"
    using assms(1,3) pow2_mono [of "- 126" e] by simp
  have hi: "x < pow2 128"
    using assms(2,4) pow2_mono [of "e + 1" 128] by simp
  note b = floor_log2_bounds [OF lo hi]
  have "pow2 e < pow2 (floor_log2 x + 1)" using assms(1) b(2) by linarith
  moreover have "pow2 (floor_log2 x) < pow2 (e + 1)" using assms(2) b(1) by linarith
  ultimately show ?thesis by (simp add: pow2_less_iff)
qed

lemma round_even_error: "\<bar>of_int (round_even q) - q\<bar> \<le> 1 / 2"
  by (auto simp: round_even_def Let_def)

lemma round_even_of_int: "round_even (of_int n) = n"
  by (simp add: round_even_def Let_def)

lemma round_even_range: "round_even q = \<lfloor>q\<rfloor> \<or> round_even q = \<lfloor>q\<rfloor> + 1"
  by (simp add: round_even_def Let_def)

lemma round_even_mono:
  assumes "p \<le> q"
  shows "round_even p \<le> round_even q"
proof (cases "\<lfloor>p\<rfloor> < \<lfloor>q\<rfloor>")
  case True
  then show ?thesis
    using round_even_range [of p] round_even_range [of q] by linarith
next
  case False
  then have eq: "\<lfloor>p\<rfloor> = \<lfloor>q\<rfloor>"
    using floor_mono [OF assms] by linarith
  then show ?thesis
    using assms by (auto simp: round_even_def Let_def)
qed

lemma round_even_between:
  assumes "of_int a \<le> q" and "q \<le> of_int b"
  shows "a \<le> round_even q" and "round_even q \<le> b"
  using round_even_mono [OF assms(1)] round_even_mono [OF assms(2)]
  by (simp_all add: round_even_of_int)

lemma round_even_nearest:
  "\<bar>of_int (round_even q) - q\<bar> < 1 / 2
   \<or> \<bar>of_int (round_even q) - q\<bar> = 1 / 2 \<and> even (round_even q)"
  by (auto simp: round_even_def Let_def)

lemma round_even_unique:
  assumes "\<bar>of_int n - q\<bar> < 1 / 2 \<or> \<bar>of_int n - q\<bar> = 1 / 2 \<and> even n"
  shows "round_even q = n"
proof -
  define f where "f = \<lfloor>q\<rfloor>"
  define d where "d = q - of_int f"
  have d: "0 \<le> d" "d < 1"
    unfolding d_def f_def by linarith+
  have q: "q = of_int f + d"
    by (simp add: d_def)
  have re: "round_even q =
      (if d < 1 / 2 then f else if 1 / 2 < d then f + 1 else if even f then f else f + 1)"
    by (simp add: round_even_def Let_def f_def d_def)
  have "\<bar>of_int n - q\<bar> \<le> 1 / 2"
    using assms by linarith
  then have "real_of_int (n - f) \<le> d + 1 / 2" "d - 1 / 2 \<le> real_of_int (n - f)"
    unfolding q of_int_diff by linarith+
  then have "real_of_int (n - f) < 2" "- 1 < real_of_int (n - f)"
    using d by linarith+
  then have "n - f < 2" "- 1 < n - f"
    by linarith+
  then consider "n = f" | "n = f + 1"
    by linarith
  then show ?thesis
  proof cases
    case 1
    then have "\<bar>d\<bar> < 1 / 2 \<or> \<bar>d\<bar> = 1 / 2 \<and> even f"
      using assms unfolding q by (simp add: abs_minus_commute)
    then show ?thesis
      using d 1 unfolding re by auto
  next
    case 2
    then have "\<bar>1 - d\<bar> < 1 / 2 \<or> \<bar>1 - d\<bar> = 1 / 2 \<and> odd f"
      using assms unfolding q by simp
    then show ?thesis
      using d 2 unfolding re by auto
  qed
qed

lemma round_even_minus: "round_even (- q) = - round_even q"
proof (rule round_even_unique)
  have "\<bar>of_int (- round_even q) - - q\<bar> = \<bar>of_int (round_even q) - q\<bar>"
    by (simp add: abs_minus_commute)
  then show "\<bar>of_int (- round_even q) - - q\<bar> < 1 / 2
     \<or> \<bar>of_int (- round_even q) - - q\<bar> = 1 / 2 \<and> even (- round_even q)"
    using round_even_nearest [of q] by simp
qed

lemma pow2_diff: "pow2 (a - b) = pow2 a / pow2 b"
  by (simp add: pow2_powr powr_diff)

lemma pow2_numerals:
  "pow2 23 = 8388608" "pow2 24 = 16777216" "pow2 (- 23) = 1 / 8388608"
  "pow2 0 = 1" "pow2 1 = 2"
  by (simp_all add: pow2_def)

lemma round32_0: "round32 0 = Finite 0"
  by (simp add: round32_def ulp_exponent_def pow2_def round_even_def Let_def)

lemma ulp_exponent_ge:
  assumes "\<bar>x\<bar> < pow2 128"
  shows "- 149 \<le> ulp_exponent x"
proof (cases "\<bar>x\<bar> < pow2 (- 126)")
  case True
  then show ?thesis by (simp add: ulp_exponent_def)
next
  case False
  then have "- 126 \<le> floor_log2 \<bar>x\<bar>"
    using floor_log2_bounds(3) [of "\<bar>x\<bar>"] assms by simp
  then show ?thesis using False by (simp add: ulp_exponent_def)
qed

lemma ulp_le:
  assumes "\<bar>x\<bar> < pow2 128"
  shows "pow2 (ulp_exponent x) \<le> \<bar>x\<bar> / 8388608 + pow2 (- 149)"
proof (cases "\<bar>x\<bar> < pow2 (- 126)")
  case True
  then show ?thesis by (simp add: ulp_exponent_def)
next
  case False
  then have "pow2 (floor_log2 \<bar>x\<bar>) \<le> \<bar>x\<bar>"
    using floor_log2_bounds(1) [of "\<bar>x\<bar>"] assms by simp
  moreover have "pow2 (floor_log2 \<bar>x\<bar> - 23) = pow2 (floor_log2 \<bar>x\<bar>) / 8388608"
    by (simp add: pow2_diff pow2_numerals)
  moreover have "0 < pow2 (- 149)"
    by (rule pow2_pos)
  ultimately show ?thesis
    using False by (simp add: ulp_exponent_def)
qed

lemma round32_FiniteD:
  assumes "round32 x = Finite y"
  shows "\<bar>x\<bar> < pow2 128"
    and "y = of_int (round_even (x / pow2 (ulp_exponent x))) * pow2 (ulp_exponent x)"
    and "\<bar>y\<bar> < pow2 128"
  using assms by (auto simp: round32_def Let_def split: if_splits)

lemma round32_FiniteI:
  assumes "\<bar>x\<bar> < pow2 128"
    and "y = of_int (round_even (x / pow2 (ulp_exponent x))) * pow2 (ulp_exponent x)"
    and "\<bar>y\<bar> < pow2 128"
  shows "round32 x = Finite y"
  using assms by (simp add: round32_def Let_def)

lemma round32_on_grid:
  assumes "\<bar>y\<bar> < pow2 128" and "y = of_int n * pow2 (ulp_exponent y)"
  shows "round32 y = Finite y"
proof (rule round32_FiniteI [OF assms(1) _ assms(1)])
  have "y / pow2 (ulp_exponent y) = of_int n"
    using assms(2) pow2_pos [of "ulp_exponent y"] by (simp add: field_simps)
  then show "y = of_int (round_even (y / pow2 (ulp_exponent y))) * pow2 (ulp_exponent y)"
    using assms(2) by (simp add: round_even_of_int)
qed

lemma round32_error:
  assumes "round32 x = Finite y"
  shows "\<bar>y - x\<bar> \<le> pow2 (ulp_exponent x) / 2"
proof -
  let ?p = "pow2 (ulp_exponent x)"
  let ?m = "round_even (x / ?p)"
  have p: "0 < ?p" by (rule pow2_pos)
  have y: "y = of_int ?m * ?p"
    by (rule round32_FiniteD(2) [OF assms])
  have "y - x = (of_int ?m - x / ?p) * ?p"
    using p by (simp add: y field_simps)
  then have "\<bar>y - x\<bar> = \<bar>of_int ?m - x / ?p\<bar> * ?p"
    using p by (simp add: abs_mult)
  also have "\<dots> \<le> (1 / 2) * ?p"
    using round_even_error [of "x / ?p"] p by (intro mult_right_mono) simp_all
  finally show ?thesis by simp
qed

lemma round32_sign:
  assumes "round32 x = Finite y"
  shows "0 \<le> x \<Longrightarrow> 0 \<le> y" and "x \<le> 0 \<Longrightarrow> y \<le> 0"
proof -
  let ?p = "pow2 (ulp_exponent x)"
  have p: "0 < ?p" by (rule pow2_pos)
  have y: "y = of_int (round_even (x / ?p)) * ?p"
    by (rule round32_FiniteD(2) [OF assms])
  show "0 \<le> y" if "0 \<le> x"
  proof -
    have "of_int 0 \<le> x / ?p" using that p by simp
    then have "0 \<le> round_even (x / ?p)"
      using round_even_mono [of "of_int 0" "x / ?p"] by (simp only: round_even_of_int)
    then show ?thesis using p by (simp add: y)
  qed
  show "y \<le> 0" if "x \<le> 0"
  proof -
    have "x / ?p \<le> of_int 0" using that p by (simp add: divide_le_0_iff)
    then have "round_even (x / ?p) \<le> 0"
      using round_even_mono [of "x / ?p" "of_int 0"] by (simp only: round_even_of_int)
    then show ?thesis using p by (simp add: y mult_le_0_iff)
  qed
qed

lemma round32_rel:
  assumes "\<bar>x\<bar> < pow2 127"
  shows "\<exists>y. round32 x = Finite y \<and> \<bar>y - x\<bar> \<le> \<bar>x\<bar> / 16777216 + pow2 (- 150)"
proof -
  let ?p = "pow2 (ulp_exponent x)"
  define y where "y = of_int (round_even (x / ?p)) * ?p"
  have p: "0 < ?p" by (rule pow2_pos)
  have x128: "\<bar>x\<bar> < pow2 128"
    using assms pow2_mono [of 127 128] by simp
  have "y - x = (of_int (round_even (x / ?p)) - x / ?p) * ?p"
    using p by (simp add: y_def field_simps)
  then have "\<bar>y - x\<bar> = \<bar>of_int (round_even (x / ?p)) - x / ?p\<bar> * ?p"
    using p by (simp add: abs_mult)
  also have "\<dots> \<le> (1 / 2) * ?p"
    using round_even_error [of "x / ?p"] p by (intro mult_right_mono) simp_all
  finally have e: "\<bar>y - x\<bar> \<le> ?p / 2" by simp
  have h: "pow2 (- 149) / 2 = pow2 (- 150)"
    using pow2_Suc [of "- 150"] by simp
  have err: "\<bar>y - x\<bar> \<le> \<bar>x\<bar> / 16777216 + pow2 (- 150)"
    using e ulp_le [OF x128] h by linarith
  have "pow2 (- 150) \<le> 1"
    using pow2_mono [of "- 150" 0] by (simp add: pow2_numerals)
  moreover have "pow2 127 = 170141183460469231731687303715884105728"
    "pow2 128 = 340282366920938463463374607431768211456"
    by (simp_all add: pow2_def)
  ultimately have "\<bar>y\<bar> < pow2 128"
    using err assms by linarith
  then have "round32 x = Finite y"
    using x128 by (intro round32_FiniteI) (simp_all add: y_def)
  then show ?thesis using err by blast
qed

lemma round32_minus: "round32 (- x) = fneg (round32 x)"
proof -
  have u: "ulp_exponent (- x) = ulp_exponent x"
    by (simp add: ulp_exponent_def)
  have "of_int (round_even (- x / pow2 k)) * pow2 k
        = - (of_int (round_even (x / pow2 k)) * pow2 k)" for k
    using round_even_minus [of "x / pow2 k"] by simp
  moreover have "round_even 0 = 0"
    using round_even_of_int [of 0] by simp
  moreover have "\<not> pow2 128 \<le> 0"
    using pow2_pos [of 128] by simp
  ultimately show ?thesis
    by (auto simp: round32_def Let_def u)
qed

lemma floor_log2_le:
  assumes "pow2 (- 126) \<le> x" and "x < pow2 (j + 1)" and "j \<le> 127"
  shows "floor_log2 x \<le> j"
proof -
  have "x < pow2 128"
    using assms(2,3) pow2_mono [of "j + 1" 128] by simp
  then have "pow2 (floor_log2 x) \<le> x"
    using floor_log2_bounds(1) [OF assms(1)] by simp
  then have "pow2 (floor_log2 x) < pow2 (j + 1)"
    using assms(2) by simp
  then show ?thesis
    by (simp add: pow2_less_iff)
qed

lemma ulp_exponent_le:
  assumes "\<bar>x\<bar> < pow2 (j + 24)" and "- 149 \<le> j" and "j \<le> 104"
  shows "ulp_exponent x \<le> j"
proof (cases "\<bar>x\<bar> < pow2 (- 126)")
  case True
  then show ?thesis using assms(2) by (simp add: ulp_exponent_def)
next
  case False
  then have "floor_log2 \<bar>x\<bar> \<le> j + 23"
    using assms by (intro floor_log2_le) (simp_all add: algebra_simps)
  then show ?thesis using False by (simp add: ulp_exponent_def)
qed

lemma round32_le_grid:
  assumes "round32 x = Finite y" and "x \<le> of_int N * pow2 j" and "ulp_exponent x \<le> j"
  shows "y \<le> of_int N * pow2 j"
proof -
  let ?k = "ulp_exponent x"
  let ?p = "pow2 ?k"
  define M where "M = N * 2 ^ nat (j - ?k)"
  have p: "0 < ?p" by (rule pow2_pos)
  have "pow2 j = pow2 (j - ?k) * ?p"
    using pow2_add [of "j - ?k" ?k] by simp
  also have "pow2 (j - ?k) = of_int (2 ^ nat (j - ?k))"
    using assms(3) by (intro pow2_of_nat) simp
  finally have c: "of_int N * pow2 j = of_int M * ?p"
    by (simp add: M_def)
  have "x / ?p \<le> of_int M"
    using assms(2) p unfolding c by (simp add: field_simps)
  then have "round_even (x / ?p) \<le> M"
    using round_even_mono [of "x / ?p" "of_int M"] by (simp only: round_even_of_int)
  then have "of_int (round_even (x / ?p)) * ?p \<le> of_int M * ?p"
    using p by (intro mult_right_mono) simp_all
  then show ?thesis
    unfolding c using round32_FiniteD(2) [OF assms(1)] by simp
qed

lemma round32_ge_grid:
  assumes "round32 x = Finite y" and "of_int N * pow2 j \<le> x" and "ulp_exponent x \<le> j"
  shows "of_int N * pow2 j \<le> y"
proof -
  have "round32 (- x) = Finite (- y)"
    by (simp add: round32_minus assms(1))
  moreover have "- x \<le> of_int (- N) * pow2 j"
    using assms(2) by simp
  moreover have "ulp_exponent (- x) = ulp_exponent x"
    by (simp add: ulp_exponent_def)
  then have "ulp_exponent (- x) \<le> j"
    using assms(3) by simp
  ultimately have "- y \<le> of_int (- N) * pow2 j"
    by (rule round32_le_grid)
  then show ?thesis by simp
qed

lemma round32_pos:
  assumes "round32 x = Finite y" and "pow2 (- 149) \<le> x"
  shows "0 < y"
proof -
  let ?k = "ulp_exponent x"
  let ?p = "pow2 ?k"
  have p: "0 < ?p" by (rule pow2_pos)
  have x0: "0 < x"
    using assms(2) pow2_pos [of "- 149"] by linarith
  have xb: "\<bar>x\<bar> < pow2 128"
    by (rule round32_FiniteD(1) [OF assms(1)])
  have "?p \<le> x"
  proof (cases "\<bar>x\<bar> < pow2 (- 126)")
    case True
    then show ?thesis using assms(2) by (simp add: ulp_exponent_def)
  next
    case False
    then have "pow2 (floor_log2 \<bar>x\<bar>) \<le> \<bar>x\<bar>"
      using floor_log2_bounds(1) [of "\<bar>x\<bar>"] xb by simp
    moreover have "pow2 (floor_log2 \<bar>x\<bar> - 23) \<le> pow2 (floor_log2 \<bar>x\<bar>)"
      by (intro pow2_mono) simp
    ultimately show ?thesis using False x0 by (simp add: ulp_exponent_def)
  qed
  then have "of_int 1 \<le> x / ?p"
    using p by (simp add: field_simps)
  then have "1 \<le> round_even (x / ?p)"
    using round_even_mono [of "of_int 1" "x / ?p"] by (simp only: round_even_of_int)
  then have "0 < of_int (round_even (x / ?p)) * ?p"
    using p by (intro mult_pos_pos) simp_all
  then show ?thesis
    using round32_FiniteD(2) [OF assms(1)] by simp
qed

lemma round32_fixed_grid:
  assumes "round32 x = Finite x"
  shows "\<exists>n. x = of_int n * pow2 (- 149)"
proof -
  let ?k = "ulp_exponent x"
  have xb: "\<bar>x\<bar> < pow2 128"
    by (rule round32_FiniteD(1) [OF assms])
  have k: "- 149 \<le> ?k"
    by (rule ulp_exponent_ge [OF xb])
  have "pow2 ?k = pow2 (?k + 149) * pow2 (- 149)"
    using pow2_add [of "?k + 149" "- 149"] by simp
  also have "pow2 (?k + 149) = of_int (2 ^ nat (?k + 149))"
    using k by (intro pow2_of_nat) simp
  finally have "x = of_int (round_even (x / pow2 ?k) * 2 ^ nat (?k + 149)) * pow2 (- 149)"
    using round32_FiniteD(2) [OF assms] by simp
  then show ?thesis ..
qed

lemma fixed_diff_ge:
  assumes "round32 a = Finite a" and "round32 b = Finite b" and "a < b"
  shows "pow2 (- 149) \<le> b - a"
proof -
  obtain m where a: "a = of_int m * pow2 (- 149)"
    using round32_fixed_grid [OF assms(1)] by blast
  obtain n where b: "b = of_int n * pow2 (- 149)"
    using round32_fixed_grid [OF assms(2)] by blast
  have p: "0 < pow2 (- 149)" by (rule pow2_pos)
  have "of_int m * pow2 (- 149) < of_int n * pow2 (- 149)"
    using assms(3) a b by simp
  then have "(of_int m :: real) < of_int n"
    using p by simp
  then have "m + 1 \<le> n" by simp
  then have "(of_int (m + 1) :: real) \<le> of_int n"
    by (simp only: of_int_le_iff)
  then have "of_int (m + 1) * pow2 (- 149) \<le> of_int n * pow2 (- 149)"
    using p by (intro mult_right_mono) simp_all
  then show ?thesis
    unfolding a b by (simp add: algebra_simps)
qed

lemma round32_idem_pos:
  assumes r: "round32 x = Finite y" and x0: "0 < x"
  shows "round32 y = Finite y"
proof -
  let ?k = "ulp_exponent x"
  let ?p = "pow2 ?k"
  let ?m = "round_even (x / ?p)"
  have p: "0 < ?p" by (rule pow2_pos)
  have xb: "\<bar>x\<bar> < pow2 128" and y: "y = of_int ?m * ?p" and yb: "\<bar>y\<bar> < pow2 128"
    using round32_FiniteD [OF r] by blast+
  have y0: "0 \<le> y"
    using round32_sign(1) [OF r] x0 by simp
  show ?thesis
  proof (cases "\<bar>x\<bar> < pow2 (- 126)")
    case True
    then have k: "?k = - 149"
      by (simp add: ulp_exponent_def)
    have "pow2 (- 126) = pow2 23 * pow2 (- 149)"
      using pow2_add [of 23 "- 149"] by simp
    then have g: "pow2 (- 126) = of_int 8388608 * pow2 (- 149)"
      by (simp add: pow2_numerals)
    have "x / pow2 (- 149) \<le> of_int 8388608"
      using True x0 pow2_pos [of "- 149"] unfolding g by (simp add: field_simps)
    then have "?m \<le> 8388608"
      using round_even_mono [of "x / ?p" "of_int 8388608"]
      by (simp only: k round_even_of_int)
    then have "(of_int ?m :: real) \<le> of_int 8388608"
      by (simp only: of_int_le_iff)
    then have "of_int ?m * pow2 (- 149) \<le> of_int 8388608 * pow2 (- 149)"
      using pow2_pos [of "- 149"] by (intro mult_right_mono) simp_all
    then have yle: "y \<le> pow2 (- 126)"
      unfolding g using y k by simp
    have "ulp_exponent y = - 149"
    proof (cases "y < pow2 (- 126)")
      case True
      then show ?thesis using y0 by (simp add: ulp_exponent_def)
    next
      case False
      then have "y = pow2 (- 126)" using yle by simp
      moreover have "floor_log2 (pow2 (- 126)) = - 126"
        using pow2_less_iff [of "- 126" "- 126 + 1"] by (intro floor_log2_unique) simp_all
      ultimately show ?thesis using pow2_pos [of "- 126"] by (simp add: ulp_exponent_def)
    qed
    then have "y = of_int ?m * pow2 (ulp_exponent y)"
      using y k by simp
    then show ?thesis
      by (rule round32_on_grid [OF yb])
  next
    case False
    define e where "e = floor_log2 \<bar>x\<bar>"
    have k: "?k = e - 23"
      using False by (simp add: ulp_exponent_def e_def)
    have xa: "\<bar>x\<bar> = x" using x0 by simp
    have lo: "pow2 e \<le> x" and hi: "x < pow2 (e + 1)" and e1: "- 126 \<le> e" and e2: "e \<le> 127"
      using floor_log2_bounds [of "\<bar>x\<bar>"] False xb unfolding e_def xa by simp_all
    have pe: "pow2 e = of_int 8388608 * pow2 (e - 23)"
      using pow2_add [of 23 "e - 23"] by (simp add: pow2_numerals)
    have pe1: "pow2 (e + 1) = of_int 16777216 * pow2 (e - 23)"
      using pow2_add [of 24 "e - 23"] by (simp add: pow2_numerals add.commute)
    have pk: "0 < pow2 (e - 23)" by (rule pow2_pos)
    have "of_int 8388608 \<le> x / pow2 (e - 23)"
      using lo pk unfolding pe by (simp add: field_simps)
    then have mlo: "8388608 \<le> ?m"
      using round_even_mono [of "of_int 8388608" "x / ?p"]
      by (simp only: k round_even_of_int)
    have "x / pow2 (e - 23) \<le> of_int 16777216"
      using hi pk unfolding pe1 by (simp add: field_simps)
    then have mhi: "?m \<le> 16777216"
      using round_even_mono [of "x / ?p" "of_int 16777216"]
      by (simp only: k round_even_of_int)
    have "(of_int 8388608 :: real) \<le> of_int ?m"
      using mlo by (simp only: of_int_le_iff)
    then have "of_int 8388608 * pow2 (e - 23) \<le> of_int ?m * pow2 (e - 23)"
      using pk by (intro mult_right_mono) simp_all
    then have ylo: "pow2 e \<le> y"
      unfolding pe using y k by simp
    have "(of_int ?m :: real) \<le> of_int 16777216"
      using mhi by (simp only: of_int_le_iff)
    then have "of_int ?m * pow2 (e - 23) \<le> of_int 16777216 * pow2 (e - 23)"
      using pk by (intro mult_right_mono) simp_all
    then have yhi: "y \<le> pow2 (e + 1)"
      unfolding pe1 using y k by simp
    have ya: "\<bar>y\<bar> = y" using y0 by simp
    have ynorm: "\<not> \<bar>y\<bar> < pow2 (- 126)"
      using ylo pow2_mono [OF e1] unfolding ya by linarith
    show ?thesis
    proof (cases "y < pow2 (e + 1)")
      case True
      have "floor_log2 y = e"
        using ylo True e1 e2 by (rule floor_log2_unique)
      then have "ulp_exponent y = e - 23"
        using ynorm by (simp add: ulp_exponent_def ya)
      then have "y = of_int ?m * pow2 (ulp_exponent y)"
        using y k by simp
      then show ?thesis
        by (rule round32_on_grid [OF yb])
    next
      case False
      then have yeq: "y = pow2 (e + 1)" using yhi by simp
      have "pow2 (e + 1) < pow2 128"
        using yb ya yeq by simp
      then have e3: "e + 1 \<le> 127"
        by (simp add: pow2_less_iff)
      have "floor_log2 y = e + 1"
        unfolding yeq using e1 e3 pow2_less_iff [of "e + 1" "e + 1 + 1"]
        by (intro floor_log2_unique) simp_all
      then have ky: "ulp_exponent y = e + 1 - 23"
        using ynorm by (simp add: ulp_exponent_def ya)
      have g2: "pow2 (e + 1) = of_int 8388608 * pow2 (e + 1 - 23)"
        using pow2_add [of 23 "e + 1 - 23"] by (simp add: pow2_numerals add.commute)
      have "y = of_int 8388608 * pow2 (ulp_exponent y)"
        by (subst ky) (use yeq g2 in simp)
      then show ?thesis
        by (rule round32_on_grid [OF yb])
    qed
  qed
qed

lemma round32_idem:
  assumes "round32 x = Finite y"
  shows "round32 y = Finite y"
proof -
  consider "0 < x" | "x = 0" | "x < 0" by linarith
  then show ?thesis
  proof cases
    case 1
    then show ?thesis using assms by (rule round32_idem_pos [rotated])
  next
    case 2
    then show ?thesis using assms by (simp add: round32_0)
  next
    case 3
    have "round32 (- x) = Finite (- y)"
      by (simp add: round32_minus assms)
    then have "round32 (- y) = Finite (- y)"
      using 3 by (intro round32_idem_pos [of "- x"]) simp_all
    then have "fneg (round32 y) = Finite (- y)"
      by (simp only: round32_minus)
    then show ?thesis
      by (cases "round32 y") simp_all
  qed
qed

lemma floor_log2_aux_numeral:
  "floor_log2_aux (numeral n) x =
     (if 2 \<le> x then floor_log2_aux (pred_numeral n) (x / 2) + 1
      else if x < 1 then floor_log2_aux (pred_numeral n) (x * 2) - 1
      else 0)"
  by (simp add: numeral_eq_Suc)

lemmas f32_eval = round32_def ulp_exponent_def floor_log2_def floor_log2_aux_numeral
  pow2_def round_even_def Let_def f32_of_int_def fsub_def

lemma TICK_VALUE_eq: "TICK_VALUE = Finite (8796093 / 2199023255552)"
  by (simp add: TICK_VALUE_def f32_eval)

lemma FREQ_eq:
  "FREQ_50 = Finite (9768505 / 262144)"
  "FREQ_100 = Finite (9768505 / 131072)"
  "FREQ_150 = Finite (14652757 / 131072)"
  by (simp_all add: FREQ_50_def FREQ_100_def FREQ_150_def PULSE_PER_KM_def f32_eval)

subsection \<open>Persistence\<close>

lemma saveConf_loop_at:
  "saveConf_loop i ee tab E a =
     (if ee \<le> a \<and> a < ee + (sizeof_gFreqTable - i) then tab ! (i + (a - ee)) else E a)"
proof (induction i ee tab E rule: saveConf_loop.induct)
  case (1 i ee tab E)
  show ?case
  proof (cases "i < sizeof_gFreqTable")
    case True
    have "saveConf_loop i ee tab E a = saveConf_loop (i + 1) (ee + 1) tab (E(ee := tab ! i)) a"
      using True by (subst saveConf_loop.simps) simp
    also have "\<dots> = (if ee + 1 \<le> a \<and> a < ee + 1 + (sizeof_gFreqTable - (i + 1))
                      then tab ! (i + 1 + (a - (ee + 1))) else (E(ee := tab ! i)) a)"
      by (rule "1.IH" [OF True])
    also have "\<dots> = (if ee \<le> a \<and> a < ee + (sizeof_gFreqTable - i)
                      then tab ! (i + (a - ee)) else E a)"
    proof (cases "a = ee")
      case True
      with \<open>i < sizeof_gFreqTable\<close> show ?thesis by auto
    next
      case False
      have "i + 1 + (a - (ee + 1)) = i + (a - ee)" if "ee + 1 \<le> a"
        using that by simp
      with False True show ?thesis by auto
    qed
    finally show ?thesis .
  next
    case False
    then show ?thesis
      by (subst saveConf_loop.simps) auto
  qed
qed

lemma loadConf_loop_length:
  "length (loadConf_loop i ee E tab) = length tab"
proof (induction i ee E tab rule: loadConf_loop.induct)
  case (1 i ee E tab)
  show ?case
  proof (cases "i < sizeof_gFreqTable")
    case True
    then show ?thesis
      using "1.IH" [OF True] by (subst loadConf_loop.simps) simp
  next
    case False
    then show ?thesis
      by (subst loadConf_loop.simps) simp
  qed
qed

lemma loadConf_loop_nth:
  "length tab = sizeof_gFreqTable \<Longrightarrow> k < sizeof_gFreqTable \<Longrightarrow>
   loadConf_loop i ee E tab ! k = (if i \<le> k then E (ee + (k - i)) else tab ! k)"
proof (induction i ee E tab rule: loadConf_loop.induct)
  case (1 i ee E tab)
  show ?case
  proof (cases "i < sizeof_gFreqTable")
    case True
    have "loadConf_loop i ee E tab ! k = loadConf_loop (i + 1) (ee + 1) E (tab[i := E ee]) ! k"
      using True by (subst loadConf_loop.simps) simp
    also have "\<dots> = (if i + 1 \<le> k then E (ee + 1 + (k - (i + 1))) else tab[i := E ee] ! k)"
      using "1.IH" [OF True] "1.prems" by simp
    also have "\<dots> = (if i \<le> k then E (ee + (k - i)) else tab ! k)"
    proof (cases "k = i")
      case True
      with "1.prems" show ?thesis by simp
    next
      case False
      have "ee + 1 + (k - (i + 1)) = ee + (k - i)" if "i + 1 \<le> k"
        using that by simp
      with False show ?thesis by auto
    qed
    finally show ?thesis .
  next
    case False
    then show ?thesis
      using "1.prems" by (subst loadConf_loop.simps) simp
  qed
qed

text \<open>
  C7. \<open>saveConf\<close> writes \<open>'S'\<close>, \<open>'N'\<close>, \<open>'X'\<close> at addresses 0, 1 and 2 and the bytes of
  the table from address 3 on, and leaves the rest of the store alone; \<open>loadConf\<close> on
  the store so written reports a loaded configuration and gives back the table that
  was saved, byte for byte, whatever the table held before the load.
\<close>

theorem save_load_roundtrip:
  assumes "length tab = sizeof_gFreqTable" and "length tab0 = sizeof_gFreqTable"
  shows "saveConf tab E 0 = of_char CHR ''S''
       \<and> saveConf tab E 1 = of_char CHR ''N''
       \<and> saveConf tab E 2 = of_char CHR ''X''
       \<and> (\<forall>k < sizeof_gFreqTable. saveConf tab E (3 + k) = tab ! k)
       \<and> (\<forall>a \<ge> 3 + sizeof_gFreqTable. saveConf tab E a = E a)
       \<and> loadConf (saveConf tab E) tab0 = (tab, ConfigurationLoaded)"
proof -
  have at: "\<And>a. saveConf tab E a =
      (if a = 0 then magic_S else if a = 1 then magic_N else if a = 2 then magic_X
       else if a < 3 + sizeof_gFreqTable then tab ! (a - 3) else E a)"
    by (auto simp: saveConf_def Let_def saveConf_loop_at)
  have magic: "saveConf tab E 0 = magic_S" "saveConf tab E 1 = magic_N"
      "saveConf tab E 2 = magic_X"
    by (simp_all add: at)
  have body: "\<forall>k < sizeof_gFreqTable. saveConf tab E (3 + k) = tab ! k"
    by (simp add: at)
  have rest: "\<forall>a \<ge> 3 + sizeof_gFreqTable. saveConf tab E a = E a"
    by (simp add: at)
  have "loadConf_loop 0 3 (saveConf tab E) tab0 = tab"
  proof (rule nth_equalityI)
    show "length (loadConf_loop 0 3 (saveConf tab E) tab0) = length tab"
      using assms by (simp add: loadConf_loop_length)
  next
    fix k
    assume "k < length (loadConf_loop 0 3 (saveConf tab E) tab0)"
    then have k: "k < sizeof_gFreqTable"
      using assms by (simp add: loadConf_loop_length)
    then show "loadConf_loop 0 3 (saveConf tab E) tab0 ! k = tab ! k"
      using assms body by (simp add: loadConf_loop_nth)
  qed
  then have "loadConf (saveConf tab E) tab0 = (tab, ConfigurationLoaded)"
    using magic by (simp add: loadConf_def Let_def)
  then show ?thesis
    using magic body rest by (simp add: magic_S_def magic_N_def magic_X_def)
qed

theorem save_load_roundtrip_witness:
  "length (map of_nat [0..<32] :: u8 list) = sizeof_gFreqTable
   \<and> length (replicate 32 (0 :: u8)) = sizeof_gFreqTable
   \<and> loadConf (saveConf (map of_nat [0..<32]) (\<lambda>_. 255)) (replicate 32 0)
       = (map of_nat [0..<32], ConfigurationLoaded)"
  using save_load_roundtrip [of "map of_nat [0..<32]" "replicate 32 0" "\<lambda>_. 255"]
  by (simp add: sizeof_gFreqTable_def)

text \<open>
  C8. When the first three bytes of the store are not \<open>'S'\<close>, \<open>'N'\<close>, \<open>'X'\<close>,
  \<open>loadConf\<close> gives back the table it was given and prints that no configuration
  was found.
\<close>

theorem loadConf_bad_magic:
  assumes "E 0 \<noteq> of_char CHR ''S'' \<or> E 1 \<noteq> of_char CHR ''N'' \<or> E 2 \<noteq> of_char CHR ''X''"
  shows "loadConf E tab = (tab, NoConfigurationFound)"
  using assms by (auto simp: loadConf_def Let_def magic_S_def magic_N_def magic_X_def)

theorem loadConf_bad_magic_witness:
  "(\<lambda>_. 255) (0::nat) \<noteq> (of_char CHR ''S'' :: u8)
   \<and> loadConf (\<lambda>_. 255) [1, 2, 3] = ([1, 2, 3], NoConfigurationFound)"
  using loadConf_bad_magic [of "\<lambda>_. 255" "[1, 2, 3]"]
  by simp

subsection \<open>Interrupt handlers\<close>

lemma uint_ucast_16_32: "uint (ucast (t :: u16) :: u32) = uint t"
  by (simp add: uint_up_ucast is_up)

lemma period_no_wrap:
  fixes t0 t1 :: u16
  assumes "t0 \<le> t1"
  shows "uint ((ucast t1 :: u32) - ucast t0) = uint t1 - uint t0"
proof -
  have b: "uint t1 < 65536" "uint t0 < 65536" "0 \<le> uint t0" "0 \<le> uint t1"
    using uint_lt2p [of t1] uint_lt2p [of t0] by simp_all
  have le: "uint t0 \<le> uint t1"
    using assms by (simp add: word_le_def)
  have "uint ((ucast t1 :: u32) - ucast t0) = (uint t1 - uint t0) mod 4294967296"
    by (simp add: uint_word_ariths uint_ucast_16_32)
  also have "\<dots> = uint t1 - uint t0"
    using b le by (intro mod_pos_pos_trivial) linarith+
  finally show ?thesis .
qed

lemma period_one_wrap:
  fixes t0 t1 :: u16
  shows "uint ((ucast t1 :: u32) - ucast t0 + 0x10000) = uint t1 + 2 ^ 16 - uint t0"
proof -
  have b: "uint t1 < 65536" "uint t0 < 65536" "0 \<le> uint t0" "0 \<le> uint t1"
    using uint_lt2p [of t1] uint_lt2p [of t0] by simp_all
  have "uint ((ucast t1 :: u32) - ucast t0 + 0x10000) = (uint t1 - uint t0 + 65536) mod 4294967296"
    by (simp add: uint_word_ariths uint_ucast_16_32 mod_simps)
  also have "\<dots> = uint t1 - uint t0 + 65536"
    using b by (intro mod_pos_pos_trivial) linarith+
  also have "\<dots> = uint t1 + 2 ^ 16 - uint t0"
    by simp
  finally show ?thesis .
qed

lemma BV_TOV1: "BV TOV1 = 1" "BV TOV0 = 1"
  by (simp_all add: BV_def TOV1_def TOV0_def)

lemma pending_after_wrap: "(x OR 1) AND (1 :: u8) \<noteq> 0"
  by (simp add: bit.conj_disj_distrib2 or_eq_0_iff)

lemma cleared_after_vector: "(x AND - 2) AND (1 :: u8) = 0"
  by (simp add: and.assoc)

lemma capt_live_period:
  "gCaptureLive s \<Longrightarrow>
   gInputPeriod (TIMER1_CAPT_vect s) =
     ucast (ICR1 s) - ucast (gLastCounter s) + ucast (gOverflowCounter s) * 0x10000
     + (if TIFR1 s AND BV TOV1 \<noteq> 0 \<and> ICR1 s < 0xffff then 0x10000 else 0)"
  by (simp add: TIMER1_CAPT_vect_def Let_def)

lemma capt_overflow_counter:
  "gOverflowCounter (TIMER1_CAPT_vect s) =
     (if TIFR1 s AND 1 \<noteq> 0 \<and> ICR1 s < 0xffff then - 1 else 0)"
  by (simp add: TIMER1_CAPT_vect_def Let_def BV_TOV1)

lemma ucast_sum_16: "(ucast ((ucast (a :: u16) :: u32) + b) :: u16) = a + ucast b"
proof -
  have d: "(65536 :: int) dvd 4294967296"
    by simp
  have "(a mod 65536 + b) mod 4294967296 mod 65536 = (a + b mod 4294967296) mod 65536"
    for a b :: int
  proof -
    have "(a mod 65536 + b) mod 4294967296 mod 65536 = (a mod 65536 + b) mod 65536"
      by (rule mod_mod_cancel [OF d])
    also have "\<dots> = (a + b) mod 65536"
      by (simp add: mod_add_left_eq)
    also have "\<dots> = (a + b mod 4294967296 mod 65536) mod 65536"
      by (simp add: mod_mod_cancel [OF d] mod_add_right_eq)
    also have "\<dots> = (a + b mod 4294967296) mod 65536"
      by (simp add: mod_add_right_eq)
    finally show ?thesis .
  qed
  then show ?thesis
    by transfer (simp add: take_bit_eq_mod)
qed

lemma capture_leaves_quiet_state:
  assumes "TIFR1 s AND BV TOV1 = 0"
  shows "gCaptureLive (TIMER1_CAPT_vect (hw_capture t0 s))"
    and "gLastCounter (TIMER1_CAPT_vect (hw_capture t0 s)) = t0"
    and "gOverflowCounter (TIMER1_CAPT_vect (hw_capture t0 s)) = 0"
    and "TIFR1 (TIMER1_CAPT_vect (hw_capture t0 s)) AND BV TOV1 = 0"
  using assms
  by (simp_all add: TIMER1_CAPT_vect_def hw_capture_def Let_def BV_TOV1)

lemma pin13_follows_gLastOutput:
  assumes "pin13 s = gLastOutput s"
  shows "pin13 (TIMER1_CAPT_vect s) = gLastOutput (TIMER1_CAPT_vect s)"
    and "pin13 (TIMER1_OVF_vect s) = gLastOutput (TIMER1_OVF_vect s)"
    and "pin13 (TIMER1_COMPA_vect s) = gLastOutput (TIMER1_COMPA_vect s)"
  using assms
  by (simp_all add: TIMER1_CAPT_vect_def TIMER1_OVF_vect_def TIMER1_COMPA_vect_def Let_def)

text \<open>
  The state \<open>s\<close> below is the one a capture leaves behind
  (\<open>capture_leaves_quiet_state\<close>): the capture is live, the counter \<open>t0\<close> of the
  previous edge is in \<open>gLastCounter\<close>, no overflow is counted and none is pending.
  The next edge latches \<open>t1\<close>. When the timer does not wrap between that edge and the
  moment the handler reads \<open>TIFR1\<close>, the handler computes \<open>t1 - t0\<close> without a wrap
  before the edge, and \<open>t1 + 2^16 - t0\<close> with one wrap before the edge, whether the
  overflow interrupt ran before the edge or is still pending when the capture handler
  runs.
\<close>

lemma capture_period_prompt_handler:
  assumes "gCaptureLive s" and "gOverflowCounter s = 0" and "TIFR1 s AND BV TOV1 = 0"
  shows "(gLastCounter s \<le> t1 \<longrightarrow>
            uint (gInputPeriod (TIMER1_CAPT_vect (hw_capture t1 s)))
              = uint t1 - uint (gLastCounter s))
       \<and> uint (gInputPeriod (TIMER1_CAPT_vect (hw_capture t1
                  (TIMER1_OVF_vect (hw_take_overflow_vector (hw_wrap s))))))
              = uint t1 + 2 ^ 16 - uint (gLastCounter s)
       \<and> (t1 < 0xffff \<longrightarrow>
            uint (gInputPeriod (TIMER1_CAPT_vect (hw_capture t1 (hw_wrap s))))
              = uint t1 + 2 ^ 16 - uint (gLastCounter s))"
proof (intro conjI impI)
  assume "gLastCounter s \<le> t1"
  then show "uint (gInputPeriod (TIMER1_CAPT_vect (hw_capture t1 s)))
              = uint t1 - uint (gLastCounter s)"
    using assms by (simp add: capt_live_period hw_capture_def period_no_wrap)
next
  show "uint (gInputPeriod (TIMER1_CAPT_vect (hw_capture t1
                  (TIMER1_OVF_vect (hw_take_overflow_vector (hw_wrap s))))))
              = uint t1 + 2 ^ 16 - uint (gLastCounter s)"
    using assms period_one_wrap [of t1 "gLastCounter s"]
    by (simp add: capt_live_period hw_capture_def TIMER1_OVF_vect_def Let_def
        hw_take_overflow_vector_def hw_wrap_def BV_TOV1 cleared_after_vector)
next
  assume "t1 < 0xffff"
  then show "uint (gInputPeriod (TIMER1_CAPT_vect (hw_capture t1 (hw_wrap s))))
              = uint t1 + 2 ^ 16 - uint (gLastCounter s)"
    using assms period_one_wrap [of t1 "gLastCounter s"]
    by (simp add: capt_live_period hw_capture_def hw_wrap_def BV_TOV1 pending_after_wrap)
qed

text \<open>
  C4 fails on the code when the timer wraps after the edge and before the capture
  handler reads \<open>TIFR1\<close>. The handler takes a pending overflow together with a
  captured counter below \<open>0xffff\<close> for a wrap before the edge, but the edge latches
  \<open>ICR1\<close> at once while the handler runs later (after another handler, or after
  the section of \<open>loop\<close> that runs with interrupts disabled), and the state the
  handler finds is the same in both orders of the edge and the wrap.

  From boot, a first edge at counter 65000 makes the capture live. The second edge
  comes at 65534, 534 ticks later, with no wrap between the two edges. If the handler
  runs at once it computes 534. If the timer wraps (two ticks after the edge) before
  the handler runs, the handler computes \<open>534 + 2^16 = 66070\<close> and leaves the
  overflow counter at \<open>0xFFFF\<close>. The overflow handler then brings the counter to 0,
  so the wrap is missing from the next period: for a third edge at counter 100, 102
  ticks after the second, the handler computes \<open>100 - 65534\<close> modulo \<open>2^32\<close>, which
  satisfies the stop condition of the main loop.
\<close>

theorem capture_period_late_wrap:
  "hw_wrap (hw_capture t s) = hw_capture t (hw_wrap s)
   \<and> gCaptureLive (TIMER1_CAPT_vect (hw_capture 65000 initial_state))
   \<and> gLastCounter (TIMER1_CAPT_vect (hw_capture 65000 initial_state)) = 65000
   \<and> gOverflowCounter (TIMER1_CAPT_vect (hw_capture 65000 initial_state)) = 0
   \<and> TIFR1 (TIMER1_CAPT_vect (hw_capture 65000 initial_state)) AND BV TOV1 = 0
   \<and> uint (gInputPeriod (TIMER1_CAPT_vect (hw_capture 65534
        (TIMER1_CAPT_vect (hw_capture 65000 initial_state))))) = 534
   \<and> uint (gInputPeriod (TIMER1_CAPT_vect (hw_wrap (hw_capture 65534
        (TIMER1_CAPT_vect (hw_capture 65000 initial_state)))))) = 66070
   \<and> gOverflowCounter (TIMER1_CAPT_vect (hw_wrap (hw_capture 65534
        (TIMER1_CAPT_vect (hw_capture 65000 initial_state))))) = 0xFFFF
   \<and> gOverflowCounter (TIMER1_OVF_vect (hw_take_overflow_vector
        (TIMER1_CAPT_vect (hw_wrap (hw_capture 65534
          (TIMER1_CAPT_vect (hw_capture 65000 initial_state))))))) = 0
   \<and> uint (gInputPeriod (TIMER1_CAPT_vect (hw_capture 100
        (TIMER1_OVF_vect (hw_take_overflow_vector
          (TIMER1_CAPT_vect (hw_wrap (hw_capture 65534
            (TIMER1_CAPT_vect (hw_capture 65000 initial_state))))))))))
       = 4294901862
   \<and> stop_condition 0 (gInputPeriod (TIMER1_CAPT_vect (hw_capture 100
        (TIMER1_OVF_vect (hw_take_overflow_vector
          (TIMER1_CAPT_vect (hw_wrap (hw_capture 65534
            (TIMER1_CAPT_vect (hw_capture 65000 initial_state))))))))))"
  by (simp add: TIMER1_CAPT_vect_def TIMER1_OVF_vect_def hw_capture_def hw_wrap_def
      hw_take_overflow_vector_def initial_state_def Let_def BV_TOV1 stop_condition_def)



text \<open>
  C10. When the capture handler finds an overflow pending and a captured counter
  below \<open>0xffff\<close>, it leaves \<open>gOverflowCounter = 0xFFFF\<close>; the overflow handler that
  follows brings it to 0. In between, the value satisfies the stop condition of the
  main loop for every period, and a control tick that reads it declares a stop and
  drops the capture that was just made.
\<close>

theorem overflow_compensation:
  assumes "TIFR1 s AND BV TOV1 \<noteq> 0" and "ICR1 s < 0xffff"
  shows "gOverflowCounter (TIMER1_CAPT_vect s) = 0xFFFF
       \<and> unat (gOverflowCounter (TIMER1_CAPT_vect s)) = 65535
       \<and> gOverflowCounter (TIMER1_OVF_vect (hw_take_overflow_vector (TIMER1_CAPT_vect s))) = 0
       \<and> stop_condition (ucast (gOverflowCounter (TIMER1_CAPT_vect s)))
            (gInputPeriod (TIMER1_CAPT_vect s))
       \<and> gCaptureLive (TIMER1_CAPT_vect s)
       \<and> fst (tick_input now (TIMER1_CAPT_vect s)) = 0
       \<and> gStopped (snd (tick_input now (TIMER1_CAPT_vect s)))
       \<and> \<not> gCaptureLive (snd (tick_input now (TIMER1_CAPT_vect s)))"
proof -
  have c: "gOverflowCounter (TIMER1_CAPT_vect s) = 0xFFFF"
    using assms by (simp add: capt_overflow_counter BV_TOV1)
  have live: "gCaptureLive (TIMER1_CAPT_vect s)"
    by (simp add: TIMER1_CAPT_vect_def Let_def)
  have stop: "stop_condition (ucast (gOverflowCounter (TIMER1_CAPT_vect s))) p" for p
    by (simp add: c stop_condition_def)
  have served: "gOverflowCounter (TIMER1_OVF_vect (hw_take_overflow_vector (TIMER1_CAPT_vect s))) = 0"
    by (simp add: TIMER1_OVF_vect_def hw_take_overflow_vector_def Let_def c)
  show ?thesis
    using c live stop served by (simp add: tick_input_def Let_def)
qed

theorem overflow_compensation_witness:
  "TIFR1 (hw_capture 5 (hw_wrap initial_state)) AND BV TOV1 \<noteq> 0
   \<and> ICR1 (hw_capture 5 (hw_wrap initial_state)) < 0xffff
   \<and> gOverflowCounter (TIMER1_CAPT_vect (hw_capture 5 (hw_wrap initial_state))) = 0xFFFF
   \<and> gStopped (snd (tick_input 0 (TIMER1_CAPT_vect (hw_capture 5 (hw_wrap initial_state)))))"
  using overflow_compensation [of "hw_capture 5 (hw_wrap initial_state)" 0]
  by (simp add: initial_state_def hw_capture_def hw_wrap_def BV_TOV1)

subsection \<open>The control tick\<close>

lemma tick_input_fields:
  "gOverflowCounter (snd (tick_input now s)) = gOverflowCounter s"
  "gLastInputFreq (snd (tick_input now s)) = gLastInputFreq s"
  "gFreqTable (snd (tick_input now s)) = gFreqTable s"
  "gState (snd (tick_input now s)) = gState s"
  by (simp_all add: tick_input_def Let_def)

lemma tick_input_stop:
  "stop_condition (ucast (gOverflowCounter s)) (gInputPeriod s) \<Longrightarrow>
   tick_input now s =
     (0, s\<lparr>gOutputPeriod := 0, gInputPeriod := 0, gStopped := True, gCaptureLive := False,
           Serial := Serial s @ [StopDetected now 0 (ucast (gLastCounter s)) (ucast (TCNT1 s))
                                   (ucast (gOverflowCounter s))]\<rparr>)"
  by (simp add: tick_input_def Let_def)

lemma tick_input_go:
  "\<not> stop_condition (ucast (gOverflowCounter s)) (gInputPeriod s) \<Longrightarrow>
   tick_input now s = (gInputPeriod s, s)"
  by (simp add: tick_input_def Let_def)

lemma tick_input_period:
  "fst (tick_input now s) < 0x10000"
  by (simp add: tick_input_def Let_def stop_condition_def not_le)

lemma tick_filter_fields:
  "gOverflowCounter (snd (tick_filter period s)) = gOverflowCounter s"
  "gInputPeriod (snd (tick_filter period s)) = gInputPeriod s"
  "gStopped (snd (tick_filter period s)) = gStopped s"
  "gCaptureLive (snd (tick_filter period s)) = gCaptureLive s"
  "gFreqTable (snd (tick_filter period s)) = gFreqTable s"
  "gState (snd (tick_filter period s)) = gState s"
  "Serial (snd (tick_filter period s)) = Serial s"
  "gLastInputFreq (snd (tick_filter period s)) = filter_freq (input_freq period) (gLastInputFreq s)"
  "fst (tick_filter period s) = filter_freq (input_freq period) (gLastInputFreq s)"
  by (simp_all add: tick_filter_def Let_def)

lemma tick_output_fields:
  assumes "tick_output period inFreq s = Inr s'"
  shows "gOverflowCounter s' = gOverflowCounter s"
    and "gInputPeriod s' = gInputPeriod s"
    and "gCaptureLive s' = gCaptureLive s"
    and "gFreqTable s' = gFreqTable s"
    and "gState s' = gState s"
    and "Serial s' = Serial s"
    and "gLastInputFreq s' = gLastInputFreq s"
  using assms by (auto simp: tick_output_def Let_def split: sum.splits if_splits)

lemma tick_output_no_input:
  "tick_output 0 inFreq s = Inr (s\<lparr>gOutputPeriod := 0\<rparr>)"
  by (simp add: tick_output_def output_period_def Let_def)

lemma unat_ucast_16_32: "unat (ucast (t :: u16) :: u32) = unat t"
  by (simp only: unat_eq_nat_uint uint_ucast_16_32)

lemma loop_tick_stop:
  assumes "now - ucast (gLastUpdate s) > 100"
    and "stop_condition (ucast (gOverflowCounter s)) (gInputPeriod s)"
  shows "loop_tick now s =
     Inr (s\<lparr>gLastUpdate := ucast now, gOutputPeriod := 0, gInputPeriod := 0, gStopped := True,
            gCaptureLive := False,
            Serial := Serial s @ [StopDetected now 0 (ucast (gLastCounter s)) (ucast (TCNT1 s))
                                   (ucast (gOverflowCounter s))],
            gLastInputFreq := filter_freq (Finite 0) (gLastInputFreq s),
            gOutputPeriod := 0\<rparr>)"
  using assms
  by (simp add: loop_tick_def tick_input_stop tick_filter_def Let_def input_freq_def
      tick_output_no_input)

lemma loop_tick_unfold:
  assumes "now - ucast (gLastUpdate s) > 100"
  shows "loop_tick now s =
     tick_output (fst (tick_input now (s\<lparr>gLastUpdate := ucast now\<rparr>)))
       (filter_freq (input_freq (fst (tick_input now (s\<lparr>gLastUpdate := ucast now\<rparr>))))
          (gLastInputFreq s))
       (snd (tick_filter (fst (tick_input now (s\<lparr>gLastUpdate := ucast now\<rparr>)))
          (snd (tick_input now (s\<lparr>gLastUpdate := ucast now\<rparr>)))))"
  using assms
  by (simp add: loop_tick_def Let_def split_beta tick_filter_fields tick_input_fields)

lemma loop_tick_go:
  assumes "now - ucast (gLastUpdate s) > 100"
    and "\<not> stop_condition (ucast (gOverflowCounter s)) (gInputPeriod s)"
    and "loop_tick now s = Inr s'"
  shows "gInputPeriod s' = gInputPeriod s" and "gCaptureLive s' = gCaptureLive s"
    and "Serial s' = Serial s" and "gOverflowCounter s' = gOverflowCounter s"
proof -
  let ?s0 = "s\<lparr>gLastUpdate := ucast now\<rparr>"
  have "tick_input now ?s0 = (gInputPeriod s, ?s0)"
    using assms(2) by (simp add: tick_input_go)
  then have out: "tick_output (gInputPeriod s) (fst (tick_filter (gInputPeriod s) ?s0))
                    (snd (tick_filter (gInputPeriod s) ?s0)) = Inr s'"
    using assms(1,3) by (simp add: loop_tick_def Let_def split_beta)
  show "gInputPeriod s' = gInputPeriod s" and "gCaptureLive s' = gCaptureLive s"
    and "Serial s' = Serial s" and "gOverflowCounter s' = gOverflowCounter s"
    using tick_output_fields [OF out] by (simp_all add: tick_filter_fields)
qed

lemma loop_tick_last_freq:
  assumes "now - ucast (gLastUpdate s) > 100" and "loop_tick now s = Inr s'"
  shows "gLastInputFreq s' =
     filter_freq (input_freq (fst (tick_input now (s\<lparr>gLastUpdate := ucast now\<rparr>))))
       (gLastInputFreq s)"
proof -
  have "gLastInputFreq s' = gLastInputFreq
     (snd (tick_filter (fst (tick_input now (s\<lparr>gLastUpdate := ucast now\<rparr>)))
          (snd (tick_input now (s\<lparr>gLastUpdate := ucast now\<rparr>)))))"
    using assms(2) unfolding loop_tick_unfold [OF assms(1)]
    by (rule tick_output_fields(7))
  then show ?thesis
    by (simp add: tick_filter_fields tick_input_fields)
qed

lemma loop_tick_run:
  assumes "now - ucast (gLastUpdate s) > 100"
    and "\<not> stop_condition (ucast (gOverflowCounter s)) (gInputPeriod s)"
    and "output_period (gFreqTable s) (gInputPeriod s)
           (filter_freq (input_freq (gInputPeriod s)) (gLastInputFreq s)) = Inr op"
  shows "\<exists>s'. loop_tick now s = Inr s'
           \<and> gLastInputFreq s' = filter_freq (input_freq (gInputPeriod s)) (gLastInputFreq s)
           \<and> gOutputPeriod s' = drop_bit 1 op
           \<and> gLastUpdate s' = ucast now
           \<and> gOverflowCounter s' = gOverflowCounter s
           \<and> gFreqTable s' = gFreqTable s"
  using assms
  by (simp add: loop_tick_def tick_input_go tick_filter_def tick_output_def Let_def)

lemma tick_examples:
  "input_freq 1000 = Finite (16383999 / 131072)"
  "input_freq 50003 = Finite (10485131 / 4194304)"
  "filter_freq (Finite (16383999 / 131072)) (Finite 0) = Finite (5 / 2)"
  "filter_freq (Finite (10485131 / 4194304)) (Finite 0) = Finite (10485131 / 4194304)"
  "filter_freq (Finite (16383999 / 131072)) (Finite (10485131 / 4194304))
     = Finite (5242723 / 1048576)"
  "filter_freq (Finite 0) (Finite 125) = Finite (245 / 2)"
  by (simp_all add: input_freq_def filter_freq_def MAX_VAR_PER_CYCLE_def TICK_VALUE_eq f32_eval)

lemma output_period_examples:
  "output_period (gFreqTable initial_state) 1000 (Finite (5 / 2)) = Inr 100000"
  "output_period (gFreqTable initial_state) 50003 (Finite (10485131 / 4194304)) = Inr 100005"
  "output_period (gFreqTable initial_state) 1000 (Finite (5242723 / 1048576)) = Inr 50001"
  by (simp_all add: output_period_def select_index_def correct_freq_def initial_state_def
      FREQ_eq TICK_VALUE_eq f32_eval)

text \<open>
  C3 (as the code has it). On a control tick the stop condition holds exactly when the
  snapshot of the overflow counter is at least 2 or the snapshot of the period is at
  least \<open>2^16\<close>. When it holds, the tick ends with the input period and the output
  period at 0, the stopped flag set and the capture no longer live, and it prints the
  stop message; the overflow counter keeps its value. When it does not hold, the tick
  changes neither the input period, nor the live flag, nor the overflow counter, and
  prints nothing.
\<close>

theorem stop_detection:
  assumes "now - ucast (gLastUpdate s) > 100"
  shows "(stop_condition (ucast (gOverflowCounter s)) (gInputPeriod s)
            \<longleftrightarrow> unat (gOverflowCounter s) \<ge> 2 \<or> unat (gInputPeriod s) \<ge> 2 ^ 16)
       \<and> (stop_condition (ucast (gOverflowCounter s)) (gInputPeriod s) \<longrightarrow>
            (\<exists>s'. loop_tick now s = Inr s'
                \<and> gInputPeriod s' = 0 \<and> gOutputPeriod s' = 0 \<and> gStopped s'
                \<and> \<not> gCaptureLive s'
                \<and> gOverflowCounter s' = gOverflowCounter s
                \<and> Serial s' = Serial s @ [StopDetected now 0 (ucast (gLastCounter s))
                                            (ucast (TCNT1 s)) (ucast (gOverflowCounter s))]))
       \<and> (\<not> stop_condition (ucast (gOverflowCounter s)) (gInputPeriod s) \<longrightarrow>
            (\<forall>s'. loop_tick now s = Inr s' \<longrightarrow>
                gInputPeriod s' = gInputPeriod s \<and> gCaptureLive s' = gCaptureLive s
                \<and> gOverflowCounter s' = gOverflowCounter s \<and> Serial s' = Serial s))"
proof -
  have "(2 :: u32) \<le> ucast (gOverflowCounter s) \<longleftrightarrow> 2 \<le> unat (gOverflowCounter s)"
    by (simp add: word_le_nat_alt unat_ucast_16_32)
  moreover have "(0x10000 :: u32) \<le> gInputPeriod s \<longleftrightarrow> 2 ^ 16 \<le> unat (gInputPeriod s)"
    by (simp add: word_le_nat_alt)
  ultimately have trigger: "stop_condition (ucast (gOverflowCounter s)) (gInputPeriod s)
            \<longleftrightarrow> unat (gOverflowCounter s) \<ge> 2 \<or> unat (gInputPeriod s) \<ge> 2 ^ 16"
    by (simp add: stop_condition_def)
  have stop: "\<exists>s'. loop_tick now s = Inr s'
                \<and> gInputPeriod s' = 0 \<and> gOutputPeriod s' = 0 \<and> gStopped s'
                \<and> \<not> gCaptureLive s'
                \<and> gOverflowCounter s' = gOverflowCounter s
                \<and> Serial s' = Serial s @ [StopDetected now 0 (ucast (gLastCounter s))
                                            (ucast (TCNT1 s)) (ucast (gOverflowCounter s))]"
    if "stop_condition (ucast (gOverflowCounter s)) (gInputPeriod s)"
    using that assms by (simp add: loop_tick_stop)
  have go: "gInputPeriod s' = gInputPeriod s \<and> gCaptureLive s' = gCaptureLive s
                \<and> gOverflowCounter s' = gOverflowCounter s \<and> Serial s' = Serial s"
    if "\<not> stop_condition (ucast (gOverflowCounter s)) (gInputPeriod s)"
      and "loop_tick now s = Inr s'" for s'
    using that assms loop_tick_go [of now s s'] by simp
  show ?thesis
    using trigger stop go by blast
qed

theorem stop_detection_witness:
  "(101 :: u32) - ucast (gLastUpdate (initial_state\<lparr>gOverflowCounter := 2\<rparr>)) > 100
   \<and> stop_condition (ucast (gOverflowCounter (initial_state\<lparr>gOverflowCounter := 2\<rparr>)))
        (gInputPeriod (initial_state\<lparr>gOverflowCounter := 2\<rparr>))
   \<and> (\<exists>s'. loop_tick 101 (initial_state\<lparr>gOverflowCounter := 2\<rparr>) = Inr s'
          \<and> gStopped s' \<and> gOverflowCounter s' = 2)
   \<and> (101 :: u32) - ucast (gLastUpdate (initial_state\<lparr>gInputPeriod := 1000, gCaptureLive := True\<rparr>)) > 100
   \<and> \<not> stop_condition
        (ucast (gOverflowCounter (initial_state\<lparr>gInputPeriod := 1000, gCaptureLive := True\<rparr>)))
        (gInputPeriod (initial_state\<lparr>gInputPeriod := 1000, gCaptureLive := True\<rparr>))
   \<and> (\<exists>s'. loop_tick 101 (initial_state\<lparr>gInputPeriod := 1000, gCaptureLive := True\<rparr>) = Inr s'
          \<and> gInputPeriod s' = 1000 \<and> gCaptureLive s')"
proof -
  let ?a = "initial_state\<lparr>gOverflowCounter := 2\<rparr>"
  let ?b = "initial_state\<lparr>gInputPeriod := 1000, gCaptureLive := True\<rparr>"
  have ta: "(101 :: u32) - ucast (gLastUpdate ?a) > 100"
    and tb: "(101 :: u32) - ucast (gLastUpdate ?b) > 100"
    by (simp_all add: initial_state_def)
  have sa: "stop_condition (ucast (gOverflowCounter ?a)) (gInputPeriod ?a)"
    and sb: "\<not> stop_condition (ucast (gOverflowCounter ?b)) (gInputPeriod ?b)"
    by (simp_all add: initial_state_def stop_condition_def)
  have "output_period (gFreqTable ?b) (gInputPeriod ?b)
          (filter_freq (input_freq (gInputPeriod ?b)) (gLastInputFreq ?b)) = Inr 100000"
    using output_period_examples(1) by (simp add: initial_state_def tick_examples)
  then have run: "\<exists>s'. loop_tick 101 ?b = Inr s'"
    using loop_tick_run [OF tb sb] by blast
  show ?thesis
    using stop_detection [OF ta] stop_detection [OF tb] ta tb sa sb run
    by (auto simp: initial_state_def)
qed

text \<open>
  C3 as stated fails: with an overflow counter of 2 the stop condition holds, and
  after the tick the overflow counter is still 2, not 0.
\<close>

theorem stop_keeps_overflow_counter:
  "stop_condition (ucast (gOverflowCounter (initial_state\<lparr>gOverflowCounter := 2\<rparr>)))
     (gInputPeriod (initial_state\<lparr>gOverflowCounter := 2\<rparr>))
   \<and> map_sum id gOverflowCounter (loop_tick 101 (initial_state\<lparr>gOverflowCounter := 2\<rparr>)) = Inr 2"
  by (simp add: loop_tick_stop initial_state_def stop_condition_def)

lemma pow2_127: "pow2 127 = 170141183460469231731687303715884105728"
  by (simp add: pow2_def)

lemma pow2_m150: "pow2 (- 150) \<le> 1 / 281474976710656"
proof -
  have "pow2 (- 150) \<le> pow2 (- 48)"
    by (intro pow2_mono) simp
  then show ?thesis by (simp add: pow2_def)
qed

lemma round32_between_grid:
  assumes "of_int a * pow2 j \<le> x" and "x \<le> of_int b * pow2 j"
    and "\<bar>x\<bar> < pow2 (j + 24)" and "- 149 \<le> j" and "j \<le> 103"
  shows "\<exists>y. round32 x = Finite y \<and> of_int a * pow2 j \<le> y \<and> y \<le> of_int b * pow2 j"
proof -
  have "pow2 (j + 24) \<le> pow2 127"
    using assms(5) by (intro pow2_mono) simp
  then have "\<bar>x\<bar> < pow2 127"
    using assms(3) by simp
  then obtain y where y: "round32 x = Finite y"
    using round32_rel [of x] by blast
  have u: "ulp_exponent x \<le> j"
    using assms(3,4,5) by (intro ulp_exponent_le) simp_all
  show ?thesis
    using y round32_ge_grid [OF y assms(1) u] round32_le_grid [OF y assms(2) u] by blast
qed

lemma round32_between_int:
  assumes "of_int a \<le> x" and "x \<le> of_int b" and "\<bar>x\<bar> < 16777216"
  shows "\<exists>y. round32 x = Finite y \<and> of_int a \<le> y \<and> y \<le> of_int b"
  using round32_between_grid [of a 0 x b] assms by (simp add: pow2_numerals)

lemma input_freq_range:
  assumes "p < 0x10000"
  shows "\<exists>x. input_freq p = Finite x \<and> 0 \<le> x \<and> x \<le> 131072"
proof (cases "p = 0")
  case True
  then show ?thesis by (simp add: input_freq_def)
next
  case False
  define n where "n = uint p"
  have p1: "n < 65536"
    using assms by (simp add: word_less_def n_def)
  have "n \<noteq> 0"
    using False by (simp add: uint_0_iff n_def)
  then have p0: "1 \<le> n"
    using uint_ge_0 [of p] unfolding n_def by linarith
  have "uint (p * 2) = (n * 2) mod 4294967296"
    by (simp add: uint_word_ariths n_def)
  also have "\<dots> = n * 2"
    using p0 p1 by (intro mod_pos_pos_trivial) linarith+
  finally have up: "uint (p * 2) = n * 2" .
  have "\<exists>y. round32 (of_int (n * 2)) = Finite y \<and> of_int 2 \<le> y \<and> y \<le> of_int 131070"
    using p0 p1 by (intro round32_between_int) simp_all
  then obtain a where a: "f32_of_int (uint (p * 2)) = Finite a" and a0: "2 \<le> a"
    and a1: "a \<le> 131070"
    unfolding f32_of_int_def up by auto
  let ?t = "8796093 / 2199023255552 :: real"
  have "\<exists>y. round32 (a * ?t) = Finite y \<and> of_int 1 * pow2 (- 17) \<le> y
             \<and> y \<le> of_int 131072 * pow2 (- 17)"
    using a0 a1 by (intro round32_between_grid) (simp_all add: pow2_def)
  then obtain b where b: "fmul (Finite a) TICK_VALUE = Finite b" and b0: "1 / 131072 \<le> b"
    and b1: "b \<le> 1"
    unfolding TICK_VALUE_eq by (auto simp: pow2_def)
  have bp: "0 < b" using b0 by linarith
  have "1 / b \<le> 131072"
    using b0 bp by (simp add: field_simps)
  moreover have "1 \<le> 1 / b"
    using b1 bp by (simp add: field_simps)
  ultimately have "\<exists>y. round32 (1 / b) = Finite y \<and> of_int 1 \<le> y \<and> y \<le> of_int 131072"
    by (intro round32_between_int) simp_all
  then obtain x where "fdiv (Finite 1) (Finite b) = Finite x" and "1 \<le> x" and "x \<le> 131072"
    using bp by auto
  then show ?thesis
    using False a b by (simp add: input_freq_def)
qed

lemma rel_error_keep:
  fixes a b t :: real
  assumes "\<bar>b\<bar> \<le> 5 / 2" and "\<bar>b - a\<bar> \<le> \<bar>a\<bar> / 16777216 + t"
    and "t \<le> 1 / 281474976710656"
  shows "\<bar>a\<bar> \<le> 5 / 2 + 3 / 16777216"
proof -
  have "\<bar>a\<bar> \<le> \<bar>b\<bar> + \<bar>b - a\<bar>" by linarith
  then have "\<bar>a\<bar> \<le> 5 / 2 + \<bar>a\<bar> / 16777216 + t" using assms by linarith
  then show ?thesis using assms(3) by linarith
qed

lemma rel_error_step:
  fixes l u c t :: real
  assumes "\<bar>u - (l + c)\<bar> \<le> \<bar>l + c\<bar> / 16777216 + t" and "\<bar>c\<bar> \<le> 5 / 2"
    and "t \<le> 1 / 281474976710656"
  shows "\<bar>u - (l + c)\<bar> \<le> (\<bar>l\<bar> + 3) / 16777216"
proof -
  have "\<bar>l + c\<bar> \<le> \<bar>l\<bar> + 5 / 2" using assms(2) by linarith
  then have "\<bar>l + c\<bar> / 16777216 \<le> (\<bar>l\<bar> + 5 / 2) / 16777216"
    by (intro divide_right_mono) simp_all
  then have "\<bar>l + c\<bar> / 16777216 \<le> \<bar>l\<bar> / 16777216 + 5 / 33554432"
    by (simp add: add_divide_distrib)
  then have "\<bar>u - (l + c)\<bar> \<le> \<bar>l\<bar> / 16777216 + 3 / 16777216"
    using assms(1,3) by linarith
  then show ?thesis by (simp add: add_divide_distrib)
qed

lemma filter_freq_Finite:
  assumes "round32 (i - l) = Finite d"
  shows "filter_freq (Finite i) (Finite l) =
     (if 5 / 2 < \<bar>d\<bar> then (if 0 < d then round32 (l + 5 / 2) else round32 (l - 5 / 2))
      else Finite i)"
  using assms by (simp add: filter_freq_def fsub_def MAX_VAR_PER_CYCLE_def Let_def)

lemma filter_freq_step:
  assumes i: "\<bar>i\<bar> \<le> 2 ^ 20" and l: "\<bar>l\<bar> \<le> 2 ^ 20"
  shows "\<exists>n. filter_freq (Finite i) (Finite l) = Finite n
          \<and> \<bar>n\<bar> \<le> 2 ^ 20
          \<and> \<bar>n - l\<bar> \<le> 5 / 2 + (\<bar>l\<bar> + 3) / 2 ^ 24
          \<and> (\<bar>i - l\<bar> \<le> 5 / 2 \<longrightarrow> n = i)
          \<and> (5 / 2 < i - l \<longrightarrow> l < n)
          \<and> (i - l < - (5 / 2) \<longrightarrow> n < l)
          \<and> (5 / 2 + 1 / 2 ^ 22 < i - l \<longrightarrow>
               Finite n = fadd (Finite l) MAX_VAR_PER_CYCLE
               \<and> \<bar>n - (l + 5 / 2)\<bar> \<le> (\<bar>l\<bar> + 3) / 2 ^ 24)
          \<and> (i - l < - (5 / 2 + 1 / 2 ^ 22) \<longrightarrow>
               Finite n = fsub (Finite l) MAX_VAR_PER_CYCLE
               \<and> \<bar>n - (l - 5 / 2)\<bar> \<le> (\<bar>l\<bar> + 3) / 2 ^ 24)"
proof -
  have il: "\<bar>i\<bar> \<le> 1048576" "\<bar>l\<bar> \<le> 1048576"
    using i l by simp_all
  note tiny = pow2_m150
  have e127: "\<bar>i - l\<bar> < pow2 127" "\<bar>l + 5 / 2\<bar> < pow2 127" "\<bar>l - 5 / 2\<bar> < pow2 127"
    unfolding pow2_127 using il by linarith+
  obtain d where d: "round32 (i - l) = Finite d"
    and de: "\<bar>d - (i - l)\<bar> \<le> \<bar>i - l\<bar> / 16777216 + pow2 (- 150)"
    using round32_rel [OF e127(1)] by blast
  obtain u where u: "round32 (l + 5 / 2) = Finite u"
    and ue: "\<bar>u - (l + 5 / 2)\<bar> \<le> \<bar>l + 5 / 2\<bar> / 16777216 + pow2 (- 150)"
    using round32_rel [OF e127(2)] by blast
  obtain w where w: "round32 (l - 5 / 2) = Finite w"
    and we: "\<bar>w - (l - 5 / 2)\<bar> \<le> \<bar>l - 5 / 2\<bar> / 16777216 + pow2 (- 150)"
    using round32_rel [OF e127(3)] by blast
  have b23: "\<bar>i - l\<bar> < 8388608" "\<bar>l + 5 / 2\<bar> < 16777216" "\<bar>l - 5 / 2\<bar> < 16777216"
    using il by linarith+
  have ke: "ulp_exponent (i - l) \<le> - 1"
    using ulp_exponent_le [of "i - l" "- 1"] b23(1) by (simp add: pow2_numerals)
  have ku: "ulp_exponent (l + 5 / 2) \<le> 0"
    using ulp_exponent_le [of "l + 5 / 2" 0] b23(2) by (simp add: pow2_numerals)
  have kw: "ulp_exponent (l - 5 / 2) \<le> 0"
    using ulp_exponent_le [of "l - 5 / 2" 0] b23(3) by (simp add: pow2_numerals)
  have half: "pow2 (- 1) = 1 / 2" "pow2 0 = 1"
    by (simp_all add: pow2_def)
  have d_le: "d \<le> 5 / 2" if "i - l \<le> 5 / 2"
    using round32_le_grid [OF d _ ke, of 5] that by (simp add: half)
  have d_ge: "- (5 / 2) \<le> d" if "- (5 / 2) \<le> i - l"
    using round32_ge_grid [OF d _ ke, of "- 5"] that by (simp add: half)
  have u_le: "u \<le> 1048576" if "l + 5 / 2 \<le> 1048576"
    using round32_le_grid [OF u _ ku, of 1048576] that by (simp add: half)
  have u_ge: "- 1048576 \<le> u"
    using round32_ge_grid [OF u _ ku, of "- 1048576"] il by (simp add: half)
  have w_le: "w \<le> 1048576"
    using round32_le_grid [OF w _ kw, of 1048576] il by (simp add: half)
  have w_ge: "- 1048576 \<le> w" if "- 1048576 \<le> l - 5 / 2"
    using round32_ge_grid [OF w _ kw, of "- 1048576"] that by (simp add: half)
  have f: "filter_freq (Finite i) (Finite l) =
     (if 5 / 2 < \<bar>d\<bar> then (if 0 < d then Finite u else Finite w) else Finite i)"
    by (simp add: filter_freq_Finite [OF d] u w)
  have add: "fadd (Finite l) MAX_VAR_PER_CYCLE = Finite u"
    and sub: "fsub (Finite l) MAX_VAR_PER_CYCLE = Finite w"
    by (simp_all add: MAX_VAR_PER_CYCLE_def fsub_def u w)
  consider (keep) "\<bar>d\<bar> \<le> 5 / 2" | (up) "5 / 2 < d" | (down) "d < - (5 / 2)"
    by linarith
  then show ?thesis
  proof cases
    case keep
    then have n: "filter_freq (Finite i) (Finite l) = Finite i"
      by (simp add: f)
    have b: "\<bar>i - l\<bar> \<le> 5 / 2 + 3 / 16777216"
      using keep de tiny by (rule rel_error_keep)
    have "\<bar>i - l\<bar> \<le> 5 / 2 + (\<bar>l\<bar> / 16777216 + 3 / 16777216)"
      using b by linarith
    then have "\<bar>i - l\<bar> \<le> 5 / 2 + (\<bar>l\<bar> + 3) / 2 ^ 24"
      by (simp add: add_divide_distrib)
    moreover have "\<not> 5 / 2 + 1 / 4194304 < i - l" "\<not> i - l < - (5 / 2 + 1 / 4194304)"
      using b by linarith+
    ultimately show ?thesis
      using n i by auto
  next
    case up
    then have n: "filter_freq (Finite i) (Finite l) = Finite u"
      by (simp add: f)
    have e: "5 / 2 < i - l"
      using d_le up by (cases "i - l \<le> 5 / 2") simp_all
    then have "l + 5 / 2 \<le> 1048576"
      using il by linarith
    then have u1: "\<bar>u\<bar> \<le> 2 ^ 20"
      using u_le u_ge by simp
    have ub: "\<bar>u - (l + 5 / 2)\<bar> \<le> (\<bar>l\<bar> + 3) / 16777216"
      using ue _ tiny by (rule rel_error_step) simp
    have ub': "\<bar>u - (l + 5 / 2)\<bar> \<le> \<bar>l\<bar> / 16777216 + 3 / 16777216"
      using ub by (simp add: add_divide_distrib)
    have "\<bar>u - l\<bar> \<le> 5 / 2 + (\<bar>l\<bar> / 16777216 + 3 / 16777216)" and "l < u"
      using ub' il by linarith+
    then have "\<bar>u - l\<bar> \<le> 5 / 2 + (\<bar>l\<bar> + 3) / 16777216" and "l < u"
      by (simp_all add: add_divide_distrib)
    then show ?thesis
      using n u1 ub e add by auto
  next
    case down
    then have n: "filter_freq (Finite i) (Finite l) = Finite w"
      by (simp add: f)
    have e: "i - l < - (5 / 2)"
      using d_ge down by (cases "- (5 / 2) \<le> i - l") simp_all
    then have "- 1048576 \<le> l - 5 / 2"
      using il by linarith
    then have w1: "\<bar>w\<bar> \<le> 2 ^ 20"
      using w_le w_ge by simp
    have wb: "\<bar>w - (l - 5 / 2)\<bar> \<le> (\<bar>l\<bar> + 3) / 16777216"
      using rel_error_step [of w l "- (5 / 2)" "pow2 (- 150)"] we tiny by simp
    have wb': "\<bar>w - (l - 5 / 2)\<bar> \<le> \<bar>l\<bar> / 16777216 + 3 / 16777216"
      using wb by (simp add: add_divide_distrib)
    have "\<bar>w - l\<bar> \<le> 5 / 2 + (\<bar>l\<bar> / 16777216 + 3 / 16777216)" and "w < l"
      using wb' il by linarith+
    then have "\<bar>w - l\<bar> \<le> 5 / 2 + (\<bar>l\<bar> + 3) / 16777216" and "w < l"
      by (simp_all add: add_divide_distrib)
    then show ?thesis
      using n w1 wb e sub by auto
  qed
qed

text \<open>
  C5 as stated fails: the filter adds in binary32, and the sum is rounded. From boot,
  a tick with an input period of 50003 ticks stores the raw frequency
  \<open>10485131 / 2^22\<close> (about 2.49985 Hz, a change below the bound). On the next tick
  an input period of 1000 ticks (about 125 Hz) is clamped, and the tick stores
  \<open>gLastInputFreq + 2.5\<close> rounded to binary32, \<open>5242723 / 2^20\<close>: the stored frequency
  has moved by \<open>2.5 + 2^-22\<close>, more than \<open>MAX_VAR_PER_CYCLE\<close>.
\<close>

theorem filter_step_exceeds_bound:
  "\<exists>s1 s2.
     loop_tick 101 (initial_state\<lparr>gInputPeriod := 50003, gCaptureLive := True\<rparr>) = Inr s1
     \<and> gLastInputFreq s1 = Finite (10485131 / 4194304)
     \<and> loop_tick 202 (s1\<lparr>gInputPeriod := 1000\<rparr>) = Inr s2
     \<and> gLastInputFreq s2 = Finite (5242723 / 1048576)
     \<and> MAX_VAR_PER_CYCLE = Finite (5 / 2)
     \<and> valof (gLastInputFreq s2) - valof (gLastInputFreq s1) = 5 / 2 + 1 / 4194304"
proof -
  let ?a = "initial_state\<lparr>gInputPeriod := 50003, gCaptureLive := True\<rparr>"
  have ta: "(101 :: u32) - ucast (gLastUpdate ?a) > 100"
    by (simp add: initial_state_def)
  have sa: "\<not> stop_condition (ucast (gOverflowCounter ?a)) (gInputPeriod ?a)"
    by (simp add: initial_state_def stop_condition_def)
  have fa: "gInputPeriod ?a = 50003" "gLastInputFreq ?a = Finite 0"
    "gFreqTable ?a = gFreqTable initial_state"
    by (simp_all add: initial_state_def)
  have oa: "output_period (gFreqTable ?a) (gInputPeriod ?a)
          (filter_freq (input_freq (gInputPeriod ?a)) (gLastInputFreq ?a)) = Inr 100005"
    by (simp only: fa tick_examples output_period_examples)
  have ga: "gOverflowCounter ?a = 0"
    by (simp add: initial_state_def)
  obtain s1 where s1: "loop_tick 101 ?a = Inr s1"
    and l1: "gLastInputFreq s1 = Finite (10485131 / 4194304)"
    and u1: "gLastUpdate s1 = ucast (101 :: u32)"
    and c1: "gOverflowCounter s1 = 0"
    and t1: "gFreqTable s1 = gFreqTable initial_state"
    using loop_tick_run [OF ta sa oa] by (auto simp only: fa ga tick_examples)
  have g1: "gLastUpdate s1 = 101" "gOverflowCounter s1 = 0"
    "gFreqTable s1 = gFreqTable initial_state"
    using u1 c1 t1 by simp_all
  let ?b = "s1\<lparr>gInputPeriod := 1000\<rparr>"
  have tb: "(202 :: u32) - ucast (gLastUpdate ?b) > 100"
    by (simp add: g1)
  have sb: "\<not> stop_condition (ucast (gOverflowCounter ?b)) (gInputPeriod ?b)"
    by (simp add: g1 stop_condition_def)
  have fb: "gInputPeriod ?b = 1000" "gLastInputFreq ?b = Finite (10485131 / 4194304)"
    "gFreqTable ?b = gFreqTable initial_state"
    by (simp_all add: l1 g1)
  have ob: "output_period (gFreqTable ?b) (gInputPeriod ?b)
          (filter_freq (input_freq (gInputPeriod ?b)) (gLastInputFreq ?b)) = Inr 50001"
    by (simp only: fb tick_examples output_period_examples)
  obtain s2 where s2: "loop_tick 202 ?b = Inr s2"
    and l2: "gLastInputFreq s2 = Finite (5242723 / 1048576)"
    using loop_tick_run [OF tb sb ob] by (auto simp only: fb tick_examples)
  have "valof (gLastInputFreq s2) - valof (gLastInputFreq s1) = 5 / 2 + 1 / 4194304"
    by (simp add: l1 l2)
  then show ?thesis
    using s1 l1 s2 l2 by (auto simp: MAX_VAR_PER_CYCLE_def)
qed

text \<open>
  C5 (as the code has it). \<open>MAX_VAR_PER_CYCLE\<close> is 2.5. For a raw frequency \<open>i\<close>
  and a stored frequency \<open>l\<close> of at most \<open>2^20\<close> Hz in magnitude, the filter gives a
  finite value \<open>n\<close> in the same range, and \<open>n\<close> differs from \<open>l\<close> by at most 2.5 plus
  one rounding error, \<open>(|l| + 3) / 2^24\<close>. A raw change of at most 2.5 is taken as it
  is. A raw change above 2.5 moves the stored value up, a raw change below \<open>-2.5\<close>
  moves it down. A raw change beyond 2.5 by more than \<open>2^-22\<close> is clamped: the stored
  value is the binary32 sum \<open>l + 2.5\<close> or difference \<open>l - 2.5\<close>, which is the exact
  step up to the rounding error. (Between 2.5 and \<open>2.5 + 2^-22\<close> the computed
  difference may round to 2.5, and the raw value is then stored.)

  On a control tick the raw frequency is finite and between 0 and \<open>2^20\<close>, the filter
  stores its result in \<open>gLastInputFreq\<close> before the output period is computed, and
  nothing later in the tick changes it. So a tick that finds a stored frequency \<open>l\<close>
  in the range leaves one in the range, at most 2.5 plus the rounding error away from
  \<open>l\<close>; at boot \<open>gLastInputFreq\<close> is 0. Without a control tick, this part of \<open>loop\<close>
  leaves the state as it is.
\<close>

theorem filter_step_bound:
  assumes "\<bar>i\<bar> \<le> 2 ^ 20" and "\<bar>l\<bar> \<le> 2 ^ 20"
  shows "MAX_VAR_PER_CYCLE = Finite (5 / 2)
     \<and> (\<exists>n. filter_freq (Finite i) (Finite l) = Finite n
          \<and> \<bar>n\<bar> \<le> 2 ^ 20
          \<and> \<bar>n - l\<bar> \<le> 5 / 2 + (\<bar>l\<bar> + 3) / 2 ^ 24
          \<and> (\<bar>i - l\<bar> \<le> 5 / 2 \<longrightarrow> n = i)
          \<and> (5 / 2 < i - l \<longrightarrow> l < n)
          \<and> (i - l < - (5 / 2) \<longrightarrow> n < l)
          \<and> (5 / 2 + 1 / 2 ^ 22 < i - l \<longrightarrow>
               Finite n = fadd (Finite l) MAX_VAR_PER_CYCLE
               \<and> \<bar>n - (l + 5 / 2)\<bar> \<le> (\<bar>l\<bar> + 3) / 2 ^ 24)
          \<and> (i - l < - (5 / 2 + 1 / 2 ^ 22) \<longrightarrow>
               Finite n = fsub (Finite l) MAX_VAR_PER_CYCLE
               \<and> \<bar>n - (l - 5 / 2)\<bar> \<le> (\<bar>l\<bar> + 3) / 2 ^ 24))
     \<and> (now - ucast (gLastUpdate s) > 100 \<longrightarrow>
          (\<exists>x. input_freq (fst (tick_input now (s\<lparr>gLastUpdate := ucast now\<rparr>))) = Finite x
                \<and> 0 \<le> x \<and> x \<le> 2 ^ 20)
          \<and> gLastInputFreq
               (snd (tick_filter (fst (tick_input now (s\<lparr>gLastUpdate := ucast now\<rparr>)))
                  (snd (tick_input now (s\<lparr>gLastUpdate := ucast now\<rparr>)))))
              = filter_freq (input_freq (fst (tick_input now (s\<lparr>gLastUpdate := ucast now\<rparr>))))
                  (gLastInputFreq s)
          \<and> loop_tick now s =
               tick_output (fst (tick_input now (s\<lparr>gLastUpdate := ucast now\<rparr>)))
                 (filter_freq (input_freq (fst (tick_input now (s\<lparr>gLastUpdate := ucast now\<rparr>))))
                    (gLastInputFreq s))
                 (snd (tick_filter (fst (tick_input now (s\<lparr>gLastUpdate := ucast now\<rparr>)))
                    (snd (tick_input now (s\<lparr>gLastUpdate := ucast now\<rparr>)))))
          \<and> (\<forall>s'. loop_tick now s = Inr s' \<longrightarrow>
                gLastInputFreq s' =
                  filter_freq (input_freq (fst (tick_input now (s\<lparr>gLastUpdate := ucast now\<rparr>))))
                    (gLastInputFreq s))
          \<and> (gLastInputFreq s = Finite l \<longrightarrow>
               (\<exists>n. gLastInputFreq
                      (snd (tick_filter (fst (tick_input now (s\<lparr>gLastUpdate := ucast now\<rparr>)))
                         (snd (tick_input now (s\<lparr>gLastUpdate := ucast now\<rparr>)))))
                     = Finite n
                   \<and> \<bar>n\<bar> \<le> 2 ^ 20
                   \<and> \<bar>n - l\<bar> \<le> 5 / 2 + (\<bar>l\<bar> + 3) / 2 ^ 24)))
     \<and> (\<not> now - ucast (gLastUpdate s) > 100 \<longrightarrow> loop_tick now s = Inr s)"
proof -
  have m: "MAX_VAR_PER_CYCLE = Finite (5 / 2)"
    by (simp add: MAX_VAR_PER_CYCLE_def)
  have raw: "\<exists>x. input_freq (fst (tick_input now (s\<lparr>gLastUpdate := ucast now\<rparr>))) = Finite x
                \<and> 0 \<le> x \<and> x \<le> 2 ^ 20"
  proof -
    obtain x where "input_freq (fst (tick_input now (s\<lparr>gLastUpdate := ucast now\<rparr>))) = Finite x"
      and "0 \<le> x" and "x \<le> 131072"
      using input_freq_range [OF tick_input_period] by blast
    then show ?thesis by auto
  qed
  have stored: "gLastInputFreq
               (snd (tick_filter (fst (tick_input now (s\<lparr>gLastUpdate := ucast now\<rparr>)))
                  (snd (tick_input now (s\<lparr>gLastUpdate := ucast now\<rparr>)))))
              = filter_freq (input_freq (fst (tick_input now (s\<lparr>gLastUpdate := ucast now\<rparr>))))
                  (gLastInputFreq s)"
    by (simp add: tick_filter_fields tick_input_fields)
  have idle: "loop_tick now s = Inr s" if "\<not> now - ucast (gLastUpdate s) > 100"
    using that by (simp add: loop_tick_def)
  have step: "\<exists>n. gLastInputFreq
                      (snd (tick_filter (fst (tick_input now (s\<lparr>gLastUpdate := ucast now\<rparr>)))
                         (snd (tick_input now (s\<lparr>gLastUpdate := ucast now\<rparr>)))))
                     = Finite n
                   \<and> \<bar>n\<bar> \<le> 2 ^ 20
                   \<and> \<bar>n - l\<bar> \<le> 5 / 2 + (\<bar>l\<bar> + 3) / 2 ^ 24"
    if "gLastInputFreq s = Finite l"
  proof -
    obtain x where x: "input_freq (fst (tick_input now (s\<lparr>gLastUpdate := ucast now\<rparr>))) = Finite x"
      and "0 \<le> x" and "x \<le> 2 ^ 20"
      using raw by blast
    then have "\<bar>x\<bar> \<le> 2 ^ 20"
      by simp
    then show ?thesis
      using filter_freq_step [OF _ assms(2), of x] by (simp only: stored x that) blast
  qed
  have tick: "(\<exists>x. input_freq (fst (tick_input now (s\<lparr>gLastUpdate := ucast now\<rparr>))) = Finite x
                \<and> 0 \<le> x \<and> x \<le> 2 ^ 20)
          \<and> gLastInputFreq
               (snd (tick_filter (fst (tick_input now (s\<lparr>gLastUpdate := ucast now\<rparr>)))
                  (snd (tick_input now (s\<lparr>gLastUpdate := ucast now\<rparr>)))))
              = filter_freq (input_freq (fst (tick_input now (s\<lparr>gLastUpdate := ucast now\<rparr>))))
                  (gLastInputFreq s)
          \<and> loop_tick now s =
               tick_output (fst (tick_input now (s\<lparr>gLastUpdate := ucast now\<rparr>)))
                 (filter_freq (input_freq (fst (tick_input now (s\<lparr>gLastUpdate := ucast now\<rparr>))))
                    (gLastInputFreq s))
                 (snd (tick_filter (fst (tick_input now (s\<lparr>gLastUpdate := ucast now\<rparr>)))
                    (snd (tick_input now (s\<lparr>gLastUpdate := ucast now\<rparr>)))))
          \<and> (\<forall>s'. loop_tick now s = Inr s' \<longrightarrow>
                gLastInputFreq s' =
                  filter_freq (input_freq (fst (tick_input now (s\<lparr>gLastUpdate := ucast now\<rparr>))))
                    (gLastInputFreq s))
          \<and> (gLastInputFreq s = Finite l \<longrightarrow>
               (\<exists>n. gLastInputFreq
                      (snd (tick_filter (fst (tick_input now (s\<lparr>gLastUpdate := ucast now\<rparr>)))
                         (snd (tick_input now (s\<lparr>gLastUpdate := ucast now\<rparr>)))))
                     = Finite n
                   \<and> \<bar>n\<bar> \<le> 2 ^ 20
                   \<and> \<bar>n - l\<bar> \<le> 5 / 2 + (\<bar>l\<bar> + 3) / 2 ^ 24))"
    if "now - ucast (gLastUpdate s) > 100"
    using raw stored loop_tick_unfold [OF that] loop_tick_last_freq [OF that] step by blast
  show ?thesis
    using m filter_freq_step [OF assms] tick idle by blast
qed

theorem filter_step_bound_witness:
  "\<bar>16383999 / 131072 :: real\<bar> \<le> 2 ^ 20 \<and> \<bar>0 :: real\<bar> \<le> 2 ^ 20
   \<and> 5 / 2 + 1 / 2 ^ 22 < (16383999 / 131072 - 0 :: real)
   \<and> (101 :: u32)
        - ucast (gLastUpdate (initial_state\<lparr>gInputPeriod := 1000, gCaptureLive := True\<rparr>)) > 100
   \<and> gLastInputFreq (initial_state\<lparr>gInputPeriod := 1000, gCaptureLive := True\<rparr>) = Finite 0
   \<and> input_freq (fst (tick_input 101
        (initial_state\<lparr>gInputPeriod := 1000, gCaptureLive := True, gLastUpdate := ucast (101 :: u32)\<rparr>)))
       = Finite (16383999 / 131072)
   \<and> filter_freq (Finite (16383999 / 131072)) (Finite 0) = Finite (5 / 2)
   \<and> fadd (Finite 0) MAX_VAR_PER_CYCLE = Finite (5 / 2)
   \<and> (\<exists>s'. loop_tick 101 (initial_state\<lparr>gInputPeriod := 1000, gCaptureLive := True\<rparr>) = Inr s'
          \<and> gLastInputFreq s' = Finite (5 / 2))
   \<and> \<bar>36 :: real\<bar> \<le> 2 ^ 20 \<and> \<bar>35 :: real\<bar> \<le> 2 ^ 20 \<and> \<bar>36 - 35 :: real\<bar> \<le> 5 / 2
   \<and> filter_freq (Finite 36) (Finite 35) = Finite 36
   \<and> \<bar>125 :: real\<bar> \<le> 2 ^ 20 \<and> (0 - 125 :: real) < - (5 / 2 + 1 / 2 ^ 22)
   \<and> filter_freq (Finite 0) (Finite 125) = Finite (245 / 2)
   \<and> fsub (Finite 125) MAX_VAR_PER_CYCLE = Finite (245 / 2)
   \<and> \<not> (50 :: u32) - ucast (gLastUpdate initial_state) > 100
   \<and> loop_tick 50 initial_state = Inr initial_state"
proof -
  let ?b = "initial_state\<lparr>gInputPeriod := 1000, gCaptureLive := True\<rparr>"
  have tb: "(101 :: u32) - ucast (gLastUpdate ?b) > 100"
    by (simp add: initial_state_def)
  have sb: "\<not> stop_condition (ucast (gOverflowCounter ?b)) (gInputPeriod ?b)"
    by (simp add: initial_state_def stop_condition_def)
  have fb: "gInputPeriod ?b = 1000" "gLastInputFreq ?b = Finite 0"
    "gFreqTable ?b = gFreqTable initial_state"
    by (simp_all add: initial_state_def)
  have ob: "output_period (gFreqTable ?b) (gInputPeriod ?b)
          (filter_freq (input_freq (gInputPeriod ?b)) (gLastInputFreq ?b)) = Inr 100000"
    by (simp only: fb tick_examples output_period_examples)
  obtain s' where run: "loop_tick 101 ?b = Inr s'"
    using loop_tick_run [OF tb sb ob] by blast
  have p: "fst (tick_input 101 (?b\<lparr>gLastUpdate := ucast (101 :: u32)\<rparr>)) = 1000"
    by (simp add: tick_input_def stop_condition_def initial_state_def Let_def)
  have raw: "input_freq (fst (tick_input 101 (?b\<lparr>gLastUpdate := ucast (101 :: u32)\<rparr>)))
               = Finite (16383999 / 131072)"
    by (simp only: p tick_examples)
  have r: "\<bar>16383999 / 131072 :: real\<bar> \<le> 2 ^ 20" "\<bar>0 :: real\<bar> \<le> 2 ^ 20"
    "5 / 2 + 1 / 2 ^ 22 < (16383999 / 131072 - 0 :: real)"
    by simp_all
  have f: "filter_freq (Finite (16383999 / 131072)) (Finite 0) = Finite (5 / 2)"
    by (rule tick_examples)
  have "\<forall>s'. loop_tick 101 ?b = Inr s' \<longrightarrow>
          gLastInputFreq s' =
            filter_freq (input_freq (fst (tick_input 101 (?b\<lparr>gLastUpdate := ucast (101 :: u32)\<rparr>))))
              (gLastInputFreq ?b)"
    using filter_step_bound [OF r(1,2), of 101 ?b] tb by blast
  then have "gLastInputFreq s' =
            filter_freq (input_freq (fst (tick_input 101 (?b\<lparr>gLastUpdate := ucast (101 :: u32)\<rparr>))))
              (gLastInputFreq ?b)"
    using run by blast
  then have l': "gLastInputFreq s' = Finite (5 / 2)"
    by (simp only: raw fb f)
  have "\<exists>n. filter_freq (Finite (16383999 / 131072)) (Finite 0) = Finite n
        \<and> (5 / 2 + 1 / 2 ^ 22 < (16383999 / 131072 - 0 :: real) \<longrightarrow>
              Finite n = fadd (Finite 0) MAX_VAR_PER_CYCLE)"
    using filter_step_bound [OF r(1,2), of 101 ?b] by blast
  then obtain n where a: "Finite (5 / 2) = Finite n"
    and b: "Finite n = fadd (Finite 0) MAX_VAR_PER_CYCLE"
    using r(3) unfolding f by blast
  have up: "fadd (Finite 0) MAX_VAR_PER_CYCLE = Finite (5 / 2)"
    by (simp only: b [symmetric] a [symmetric])
  have k: "\<bar>36 :: real\<bar> \<le> 2 ^ 20" "\<bar>35 :: real\<bar> \<le> 2 ^ 20" "\<bar>36 - 35 :: real\<bar> \<le> 5 / 2"
    by simp_all
  have "\<exists>n. filter_freq (Finite 36) (Finite 35) = Finite n
        \<and> (\<bar>36 - 35 :: real\<bar> \<le> 5 / 2 \<longrightarrow> n = 36)"
    using filter_step_bound [OF k(1,2), of 0 initial_state] by blast
  then have keep: "filter_freq (Finite 36) (Finite 35) = Finite 36"
    using k(3) by blast
  have d: "\<bar>125 :: real\<bar> \<le> 2 ^ 20" "(0 - 125 :: real) < - (5 / 2 + 1 / 2 ^ 22)"
    by simp_all
  have idle: "\<not> (50 :: u32) - ucast (gLastUpdate initial_state) > 100"
    by (simp add: initial_state_def)
  have "\<exists>n. filter_freq (Finite 0) (Finite 125) = Finite n
        \<and> ((0 - 125 :: real) < - (5 / 2 + 1 / 2 ^ 22) \<longrightarrow>
              Finite n = fsub (Finite 125) MAX_VAR_PER_CYCLE)"
    using filter_step_bound [OF r(2) d(1), of 50 initial_state] by blast
  then obtain m where "filter_freq (Finite 0) (Finite 125) = Finite m"
    and "Finite m = fsub (Finite 125) MAX_VAR_PER_CYCLE"
    using d(2) by blast
  then have down: "filter_freq (Finite 0) (Finite 125) = Finite (245 / 2)"
    "fsub (Finite 125) MAX_VAR_PER_CYCLE = Finite (245 / 2)"
    using tick_examples(6) by simp_all
  have still: "loop_tick 50 initial_state = Inr initial_state"
    using filter_step_bound [OF r(2) d(1), of 50 initial_state] idle by blast
  have run': "\<exists>s'. loop_tick 101 ?b = Inr s' \<and> gLastInputFreq s' = Finite (5 / 2)"
    using run l' by blast
  show ?thesis
    by (intro conjI) (fact r tb fb raw f up run' k keep d down idle still)+
qed

subsection \<open>The correction curve\<close>

lemma pow2_126: "pow2 126 = 85070591730234615865843651857942052864"
  by (simp add: pow2_def)

lemma binary32D:
  assumes "binary32 a"
  obtains x where "a = Finite x" and "round32 x = Finite x" and "\<bar>x\<bar> < pow2 126"
  using assms by (cases a) simp_all

lemma representable_tableD:
  assumes "representable_table tab" and "i < 4"
  shows "binary32 (inputFreq (tab ! i))" and "binary32 (outputFreq (tab ! i))"
  using assms by (simp_all add: representable_table_def list_all_length)

lemma round32_1: "round32 1 = Finite 1"
  by (simp add: f32_eval)

lemma fsub_Finite: "fsub (Finite a) (Finite b) = round32 (a - b)"
  by (simp add: fsub_def)

lemma diff_finite:
  assumes "\<bar>a\<bar> < pow2 126" and "\<bar>b\<bar> < pow2 126"
  obtains d where "round32 (a - b) = Finite d"
    and "\<bar>d - (a - b)\<bar> \<le> \<bar>a - b\<bar> / 16777216 + pow2 (- 150)"
proof -
  have "\<bar>a - b\<bar> < pow2 127"
    using assms unfolding pow2_126 pow2_127 by linarith
  then show ?thesis
    using round32_rel [of "a - b"] that by blast
qed

lemma segment_width:
  assumes "round32 a0 = Finite a0" and "round32 a1 = Finite a1" and "a0 < a1"
    and "\<bar>a0\<bar> < pow2 126" and "\<bar>a1\<bar> < pow2 126"
  obtains d where "round32 (a1 - a0) = Finite d" and "0 < d"
proof -
  obtain d where d: "round32 (a1 - a0) = Finite d"
    using diff_finite [OF assms(5,4)] by blast
  have "pow2 (- 149) \<le> a1 - a0"
    using assms(1,2,3) by (rule fixed_diff_ge)
  then have "0 < d"
    using round32_pos [OF d] by simp
  then show ?thesis
    using d that by blast
qed

lemma curve_lower_end:
  assumes "round32 a0 = Finite a0" and "round32 a1 = Finite a1" and "a0 < a1"
    and "\<bar>a0\<bar> < pow2 126" and "\<bar>a1\<bar> < pow2 126"
    and "round32 o0 = Finite o0" and "\<bar>o0\<bar> < pow2 126" and "\<bar>o1\<bar> < pow2 126"
  shows "fadd (fmul (fdiv (fsub (Finite a0) (Finite a0)) (fsub (Finite a1) (Finite a0)))
                 (fsub (Finite o1) (Finite o0))) (Finite o0) = Finite o0"
proof -
  obtain d where d: "round32 (a1 - a0) = Finite d" and d0: "0 < d"
    using segment_width [OF assms(1-5)] by blast
  obtain e where e: "round32 (o1 - o0) = Finite e"
    using diff_finite [OF assms(8,7)] by blast
  show ?thesis
    using d0 by (simp add: fsub_Finite d e round32_0 assms(6))
qed

lemma curve_upper_end:
  assumes "round32 a0 = Finite a0" and "round32 a1 = Finite a1" and "a0 < a1"
    and "\<bar>a0\<bar> < pow2 126" and "\<bar>a1\<bar> < pow2 126"
    and "\<bar>o0\<bar> < pow2 126" and "\<bar>o1\<bar> < pow2 126"
  shows "fadd (fmul (fdiv (fsub (Finite a1) (Finite a0)) (fsub (Finite a1) (Finite a0)))
                 (fsub (Finite o1) (Finite o0))) (Finite o0)
         = fadd (fsub (Finite o1) (Finite o0)) (Finite o0)"
proof -
  obtain d where d: "round32 (a1 - a0) = Finite d" and d0: "0 < d"
    using segment_width [OF assms(1-5)] by blast
  obtain e where e: "round32 (o1 - o0) = Finite e"
    using diff_finite [OF assms(7,6)] by blast
  have "round32 e = Finite e"
    using e by (rule round32_idem)
  then show ?thesis
    using d0 by (simp add: fsub_Finite d e round32_1)
qed

lemma below_pow2_127:
  fixes x A D t :: real
  assumes "x \<le> A + D / 16777216 + t" and "D < 170141183460469231731687303715884105728"
    and "A < 85070591730234615865843651857942052864" and "t \<le> 1 / 281474976710656"
  shows "x < 170141183460469231731687303715884105728"
  using assms by linarith

lemma two_roundings_arith:
  fixes A D t a b :: real
  assumes "0 \<le> t" and "0 \<le> A" and "0 \<le> D"
    and "a \<le> A / 16777216 + t" and "A \<le> B + D / 16777216 + t" and "0 \<le> B"
    and "b \<le> D / 16777216 + t"
  shows "a + b \<le> (D + B) / 8388608 + 4 * t"
proof -
  have "A / 16777216 \<le> (B + D / 16777216 + t) / 16777216"
    using assms(5) by (intro divide_right_mono) simp_all
  then have "A / 16777216 \<le> B / 16777216 + D / 281474976710656 + t / 16777216"
    by (simp add: add_divide_distrib)
  then have "a + b \<le> B / 8388608 + D / 8388608 + 4 * t"
    using assms(1,3,4,6,7) by linarith
  then show ?thesis
    by (simp add: add_divide_distrib)
qed

lemma two_roundings:
  assumes "\<bar>o0\<bar> < pow2 126" and "\<bar>o1\<bar> < pow2 126"
  shows "\<exists>v. fadd (fsub (Finite o1) (Finite o0)) (Finite o0) = Finite v
           \<and> \<bar>v - o1\<bar> \<le> (\<bar>o1 - o0\<bar> + \<bar>o1\<bar>) / 2 ^ 23 + pow2 (- 148)"
proof -
  note tiny = pow2_m150
  obtain e where e: "round32 (o1 - o0) = Finite e"
    and ee: "\<bar>e - (o1 - o0)\<bar> \<le> \<bar>o1 - o0\<bar> / 16777216 + pow2 (- 150)"
    using diff_finite [OF assms(2,1)] by blast
  have d: "\<bar>o1 - o0\<bar> < 170141183460469231731687303715884105728"
    using assms unfolding pow2_126 by linarith
  have s1: "\<bar>e + o0 - o1\<bar> \<le> \<bar>o1 - o0\<bar> / 16777216 + pow2 (- 150)"
    using ee by linarith
  have s2: "\<bar>e + o0\<bar> \<le> \<bar>o1\<bar> + \<bar>o1 - o0\<bar> / 16777216 + pow2 (- 150)"
    using s1 by linarith
  have "\<bar>e + o0\<bar> < pow2 127"
    using s2 d assms(2) tiny unfolding pow2_126 pow2_127 by (rule below_pow2_127)
  then obtain v where v: "round32 (e + o0) = Finite v"
    and ve: "\<bar>v - (e + o0)\<bar> \<le> \<bar>e + o0\<bar> / 16777216 + pow2 (- 150)"
    using round32_rel [of "e + o0"] by blast
  have q: "pow2 (- 148) = 4 * pow2 (- 150)"
    using pow2_add [of 2 "- 150"] by (simp add: pow2_def)
  have t0: "0 \<le> pow2 (- 150)"
    using pow2_pos [of "- 150"] by simp
  have "\<bar>v - o1\<bar> \<le> \<bar>v - (e + o0)\<bar> + \<bar>e + o0 - o1\<bar>"
    by linarith
  also have "\<dots> \<le> (\<bar>o1 - o0\<bar> + \<bar>o1\<bar>) / 8388608 + 4 * pow2 (- 150)"
    using t0 _ _ ve s2 _ s1 by (rule two_roundings_arith) simp_all
  finally have "\<bar>v - o1\<bar> \<le> (\<bar>o1 - o0\<bar> + \<bar>o1\<bar>) / 2 ^ 23 + pow2 (- 148)"
    unfolding q by simp
  then show ?thesis
    using v by (simp add: fsub_Finite e)
qed

lemma select_index_range: "select_index tab f \<in> {1, 2, 3}"
  by (simp add: select_index_def)

lemma correct_freq_unfold:
  "correct_freq tab i f =
     fadd (fmul (fdiv (fsub f (inputFreq (tab ! (i - 1))))
                   (fsub (inputFreq (tab ! i)) (inputFreq (tab ! (i - 1)))))
             (fsub (outputFreq (tab ! i)) (outputFreq (tab ! (i - 1)))))
       (outputFreq (tab ! (i - 1)))"
  by (simp add: correct_freq_def Let_def)

text \<open>
  C6 as stated fails at the last point of the curve. The three commands
  \<open>1 15000 15500\<close>, \<open>2 30000 31200\<close> and \<open>3 120000 125100\<close> set a table with
  strictly increasing input frequencies 0, 15, 30 and 120 Hz. At 120 Hz, the input
  frequency of point 3, the code computes \<open>(120 - 30) / (120 - 30) * (o3 - o2) + o2\<close>
  in binary32, where \<open>o2\<close> and \<open>o3\<close> are the binary32 numbers nearest to 31.2 and
  125.1: the difference \<open>o3 - o2\<close> is rounded, and the result is \<open>8198553 / 2^16\<close>, one
  unit in the last place below \<open>o3 = 16397107 / 2^17\<close>.
\<close>

theorem curve_misses_last_point:
  "\<exists>s1 s2 s3.
     configure (initial_state\<lparr>gInputString := ''1 15000 15500''\<rparr>) = Inr s1
     \<and> configure (s1\<lparr>gInputString := ''2 30000 31200''\<rparr>) = Inr s2
     \<and> configure (s2\<lparr>gInputString := ''3 120000 125100''\<rparr>) = Inr s3
     \<and> gFreqTable s3 =
         [\<lparr>inputFreq = Finite 0, outputFreq = Finite 0\<rparr>,
          \<lparr>inputFreq = Finite 15, outputFreq = Finite (31 / 2)\<rparr>,
          \<lparr>inputFreq = Finite 30, outputFreq = Finite (8178893 / 262144)\<rparr>,
          \<lparr>inputFreq = Finite 120, outputFreq = Finite (16397107 / 131072)\<rparr>]
     \<and> representable_table (gFreqTable s3)
     \<and> select_index (gFreqTable s3) (inputFreq (gFreqTable s3 ! 3)) = 3
     \<and> correct_freq (gFreqTable s3) (select_index (gFreqTable s3) (inputFreq (gFreqTable s3 ! 3)))
          (inputFreq (gFreqTable s3 ! 3)) = Finite (8198553 / 65536)
     \<and> outputFreq (gFreqTable s3 ! 3) = Finite (16397107 / 131072)
     \<and> (8198553 / 65536 :: real) < 16397107 / 131072"
proof -
  have p: "myParseInt ''1 15000 15500'' = (1, ''15000 15500'')"
    "myParseInt ''15000 15500'' = (15000, ''15500'')"
    "myParseInt ''15500'' = (15500, [])"
    "myParseInt ''2 30000 31200'' = (2, ''30000 31200'')"
    "myParseInt ''30000 31200'' = (30000, ''31200'')"
    "myParseInt ''31200'' = (31200, [])"
    "myParseInt ''3 120000 125100'' = (3, ''120000 125100'')"
    "myParseInt ''120000 125100'' = (120000, ''125100'')"
    "myParseInt ''125100'' = (125100, [])"
    by (simp_all add: myParseInt_def)
  have v: "fdiv (f32_of_int 15000) (Finite 1000) = Finite 15"
    "fdiv (f32_of_int 15500) (Finite 1000) = Finite (31 / 2)"
    "fdiv (f32_of_int 30000) (Finite 1000) = Finite 30"
    "fdiv (f32_of_int 31200) (Finite 1000) = Finite (8178893 / 262144)"
    "fdiv (f32_of_int 120000) (Finite 1000) = Finite 120"
    "fdiv (f32_of_int 125100) (Finite 1000) = Finite (16397107 / 131072)"
    by (simp_all add: f32_eval)
  let ?t0 = "gFreqTable initial_state"
  let ?e1 = "\<lparr>inputFreq = Finite 15, outputFreq = Finite (31 / 2)\<rparr>"
  let ?e2 = "\<lparr>inputFreq = Finite 30, outputFreq = Finite (8178893 / 262144)\<rparr>"
  let ?e3 = "\<lparr>inputFreq = Finite 120, outputFreq = Finite (16397107 / 131072)\<rparr>"
  obtain s1 where s1: "configure (initial_state\<lparr>gInputString := ''1 15000 15500''\<rparr>) = Inr s1"
    and t1: "gFreqTable s1 = ?t0[1 := ?e1]"
    by (simp add: configure_def p v Let_def initial_state_def)
  obtain s2 where s2: "configure (s1\<lparr>gInputString := ''2 30000 31200''\<rparr>) = Inr s2"
    and t2: "gFreqTable s2 = ?t0[1 := ?e1, 2 := ?e2]"
    by (simp add: configure_def p v Let_def t1)
  obtain s3 where s3: "configure (s2\<lparr>gInputString := ''3 120000 125100''\<rparr>) = Inr s3"
    and t3: "gFreqTable s3 = ?t0[1 := ?e1, 2 := ?e2, 3 := ?e3]"
    by (simp add: configure_def p v Let_def t2)
  have tab: "gFreqTable s3 =
         [\<lparr>inputFreq = Finite 0, outputFreq = Finite 0\<rparr>, ?e1, ?e2, ?e3]"
    by (simp add: t3 initial_state_def)
  have r: "representable_table (gFreqTable s3)"
    unfolding tab by (simp add: representable_table_def f32_eval)
  have sel: "select_index (gFreqTable s3) (inputFreq (gFreqTable s3 ! 3)) = 3"
    unfolding tab by (simp add: select_index_def)
  have val: "correct_freq (gFreqTable s3) 3 (inputFreq (gFreqTable s3 ! 3))
               = Finite (8198553 / 65536)"
    unfolding tab by (simp add: correct_freq_def f32_eval)
  have out: "outputFreq (gFreqTable s3 ! 3) = Finite (16397107 / 131072)"
    unfolding tab by simp
  have val': "correct_freq (gFreqTable s3)
                (select_index (gFreqTable s3) (inputFreq (gFreqTable s3 ! 3)))
                (inputFreq (gFreqTable s3 ! 3)) = Finite (8198553 / 65536)"
    by (simp only: sel val)
  have num: "(8198553 / 65536 :: real) < 16397107 / 131072"
    by simp
  show ?thesis
    by (intro exI conjI) (fact s1 s2 s3 tab r sel val' out num)+
qed

text \<open>
  C6 (as the code has it). The selected index is 1, 2 or 3. For a table of finite
  binary32 numbers below \<open>2^126\<close> in magnitude, and a frequency not below the first
  point, the selected segment starts at or below the frequency and ends above it, or
  the index is 3 and the frequency is at or beyond the last point. The output is the
  interpolation on the selected segment, evaluated in binary32 in the order of the
  code, each of the six operations rounded. For strictly increasing input
  frequencies, the curve at the input frequency of point 0, 1 or 2 is exactly the
  output frequency of that point: these are evaluated at the lower end of a segment.
  The input frequency of point 3 is evaluated at the upper end of segment 3, where
  the code computes \<open>(o3 - o2) + o2\<close> with two roundings: the result is the output
  frequency of point 3 when the difference \<open>o3 - o2\<close> is a binary32 number, and is
  within \<open>(|o3 - o2| + |o3|) / 2^23 + 2^-148\<close> of it in every case.
\<close>

theorem correction_curve:
  assumes "representable_table tab"
    and "valof (inputFreq (tab ! 0)) < valof (inputFreq (tab ! 1))"
    and "valof (inputFreq (tab ! 1)) < valof (inputFreq (tab ! 2))"
    and "valof (inputFreq (tab ! 2)) < valof (inputFreq (tab ! 3))"
  shows "select_index tab f \<in> {1, 2, 3}
     \<and> (valof (inputFreq (tab ! 0)) \<le> x \<longrightarrow>
          valof (inputFreq (tab ! (select_index tab (Finite x) - 1))) \<le> x
          \<and> (x < valof (inputFreq (tab ! select_index tab (Finite x)))
               \<or> select_index tab (Finite x) = 3 \<and> valof (inputFreq (tab ! 3)) \<le> x))
     \<and> correct_freq tab (select_index tab f) f =
          fadd (fmul (fdiv (fsub f (inputFreq (tab ! (select_index tab f - 1))))
                        (fsub (inputFreq (tab ! select_index tab f))
                           (inputFreq (tab ! (select_index tab f - 1)))))
                  (fsub (outputFreq (tab ! select_index tab f))
                     (outputFreq (tab ! (select_index tab f - 1)))))
            (outputFreq (tab ! (select_index tab f - 1)))
     \<and> (\<forall>i \<in> {0, 1, 2}.
          correct_freq tab (select_index tab (inputFreq (tab ! i))) (inputFreq (tab ! i))
            = outputFreq (tab ! i))
     \<and> correct_freq tab (select_index tab (inputFreq (tab ! 3))) (inputFreq (tab ! 3))
          = fadd (fsub (outputFreq (tab ! 3)) (outputFreq (tab ! 2))) (outputFreq (tab ! 2))
     \<and> (\<exists>v. correct_freq tab (select_index tab (inputFreq (tab ! 3))) (inputFreq (tab ! 3))
               = Finite v
             \<and> \<bar>v - valof (outputFreq (tab ! 3))\<bar>
                 \<le> (\<bar>valof (outputFreq (tab ! 3)) - valof (outputFreq (tab ! 2))\<bar>
                      + \<bar>valof (outputFreq (tab ! 3))\<bar>) / 2 ^ 23 + pow2 (- 148))
     \<and> (round32 (valof (outputFreq (tab ! 3)) - valof (outputFreq (tab ! 2)))
           = Finite (valof (outputFreq (tab ! 3)) - valof (outputFreq (tab ! 2))) \<longrightarrow>
          correct_freq tab (select_index tab (inputFreq (tab ! 3))) (inputFreq (tab ! 3))
            = outputFreq (tab ! 3))"
proof -
  obtain a0 where a0: "inputFreq (tab ! 0) = Finite a0" "round32 a0 = Finite a0" "\<bar>a0\<bar> < pow2 126"
    using representable_tableD(1) [OF assms(1), of 0] by (auto elim: binary32D)
  obtain a1 where a1: "inputFreq (tab ! 1) = Finite a1" "round32 a1 = Finite a1" "\<bar>a1\<bar> < pow2 126"
    using representable_tableD(1) [OF assms(1), of 1] by (auto elim: binary32D)
  obtain a2 where a2: "inputFreq (tab ! 2) = Finite a2" "round32 a2 = Finite a2" "\<bar>a2\<bar> < pow2 126"
    using representable_tableD(1) [OF assms(1), of 2] by (auto elim: binary32D)
  obtain a3 where a3: "inputFreq (tab ! 3) = Finite a3" "round32 a3 = Finite a3" "\<bar>a3\<bar> < pow2 126"
    using representable_tableD(1) [OF assms(1), of 3] by (auto elim: binary32D)
  obtain o0 where o0: "outputFreq (tab ! 0) = Finite o0" "round32 o0 = Finite o0" "\<bar>o0\<bar> < pow2 126"
    using representable_tableD(2) [OF assms(1), of 0] by (auto elim: binary32D)
  obtain o1 where o1: "outputFreq (tab ! 1) = Finite o1" "round32 o1 = Finite o1" "\<bar>o1\<bar> < pow2 126"
    using representable_tableD(2) [OF assms(1), of 1] by (auto elim: binary32D)
  obtain o2 where o2: "outputFreq (tab ! 2) = Finite o2" "round32 o2 = Finite o2" "\<bar>o2\<bar> < pow2 126"
    using representable_tableD(2) [OF assms(1), of 2] by (auto elim: binary32D)
  obtain o3 where o3: "outputFreq (tab ! 3) = Finite o3" "round32 o3 = Finite o3" "\<bar>o3\<bar> < pow2 126"
    using representable_tableD(2) [OF assms(1), of 3] by (auto elim: binary32D)
  have inc: "a0 < a1" "a1 < a2" "a2 < a3"
    using assms(2,3,4) unfolding a0(1) a1(1) a2(1) a3(1) by simp_all
  have a1': "inputFreq (tab ! Suc 0) = Finite a1"
    and o1': "outputFreq (tab ! Suc 0) = Finite o1"
    using a1(1) o1(1) by simp_all
  have bracket: "valof (inputFreq (tab ! (select_index tab (Finite x) - 1))) \<le> x
          \<and> (x < valof (inputFreq (tab ! select_index tab (Finite x)))
               \<or> select_index tab (Finite x) = 3 \<and> valof (inputFreq (tab ! 3)) \<le> x)"
    if "valof (inputFreq (tab ! 0)) \<le> x"
    using that by (auto simp: select_index_def a0 a1 a1' a2 a3)
  have s0: "select_index tab (inputFreq (tab ! 0)) = 1"
    and s1: "select_index tab (inputFreq (tab ! 1)) = 2"
    and s2: "select_index tab (inputFreq (tab ! 2)) = 3"
    and s3: "select_index tab (inputFreq (tab ! 3)) = 3"
    using inc by (simp_all add: select_index_def a0 a1 a1' a2 a3)
  have p0: "correct_freq tab (select_index tab (inputFreq (tab ! 0))) (inputFreq (tab ! 0))
              = outputFreq (tab ! 0)"
    unfolding s0 correct_freq_unfold
    using curve_lower_end [OF a0(2) a1(2) inc(1) a0(3) a1(3) o0(2) o0(3) o1(3)]
    by (simp add: a0 a1 a1' o0 o1 o1')
  have p1: "correct_freq tab (select_index tab (inputFreq (tab ! 1))) (inputFreq (tab ! 1))
              = outputFreq (tab ! 1)"
    unfolding s1 correct_freq_unfold
    using curve_lower_end [OF a1(2) a2(2) inc(2) a1(3) a2(3) o1(2) o1(3) o2(3)]
    by (simp add: a1 a1' a2 o1 o1' o2)
  have p2: "correct_freq tab (select_index tab (inputFreq (tab ! 2))) (inputFreq (tab ! 2))
              = outputFreq (tab ! 2)"
    unfolding s2 correct_freq_unfold
    using curve_lower_end [OF a2(2) a3(2) inc(3) a2(3) a3(3) o2(2) o2(3) o3(3)]
    by (simp add: a2 a3 o2 o3)
  have p3: "correct_freq tab (select_index tab (inputFreq (tab ! 3))) (inputFreq (tab ! 3))
          = fadd (fsub (outputFreq (tab ! 3)) (outputFreq (tab ! 2))) (outputFreq (tab ! 2))"
    unfolding s3 correct_freq_unfold
    using curve_upper_end [OF a2(2) a3(2) inc(3) a2(3) a3(3) o2(3) o3(3)]
    by (simp add: a2 a3 o2 o3)
  have near: "\<exists>v. correct_freq tab (select_index tab (inputFreq (tab ! 3))) (inputFreq (tab ! 3))
               = Finite v
             \<and> \<bar>v - valof (outputFreq (tab ! 3))\<bar>
                 \<le> (\<bar>valof (outputFreq (tab ! 3)) - valof (outputFreq (tab ! 2))\<bar>
                      + \<bar>valof (outputFreq (tab ! 3))\<bar>) / 2 ^ 23 + pow2 (- 148)"
    unfolding p3 using two_roundings [OF o2(3) o3(3)] by (simp add: o2 o3)
  have exact: "correct_freq tab (select_index tab (inputFreq (tab ! 3))) (inputFreq (tab ! 3))
            = outputFreq (tab ! 3)"
    if "round32 (valof (outputFreq (tab ! 3)) - valof (outputFreq (tab ! 2)))
           = Finite (valof (outputFreq (tab ! 3)) - valof (outputFreq (tab ! 2)))"
    unfolding p3 using that by (simp add: o2 o3 fsub_Finite)
  have points: "\<forall>i \<in> {0, 1, 2}.
          correct_freq tab (select_index tab (inputFreq (tab ! i))) (inputFreq (tab ! i))
            = outputFreq (tab ! i)"
    using p0 p1 p2 by simp
  show ?thesis
    using select_index_range [of tab f] bracket correct_freq_unfold [of tab "select_index tab f" f]
      points p3 near exact
    by blast
qed

theorem correction_curve_witness:
  "representable_table (gFreqTable initial_state)
   \<and> valof (inputFreq (gFreqTable initial_state ! 0)) < valof (inputFreq (gFreqTable initial_state ! 1))
   \<and> valof (inputFreq (gFreqTable initial_state ! 1)) < valof (inputFreq (gFreqTable initial_state ! 2))
   \<and> valof (inputFreq (gFreqTable initial_state ! 2)) < valof (inputFreq (gFreqTable initial_state ! 3))
   \<and> valof (inputFreq (gFreqTable initial_state ! 0)) \<le> 50
   \<and> select_index (gFreqTable initial_state) (Finite 50) = 2
   \<and> valof (inputFreq (gFreqTable initial_state ! 1)) \<le> 50
   \<and> 50 < valof (inputFreq (gFreqTable initial_state ! 2))
   \<and> correct_freq (gFreqTable initial_state) (select_index (gFreqTable initial_state) FREQ_100)
        FREQ_100 = FREQ_100
   \<and> round32 (valof FREQ_150 - valof FREQ_100) = Finite (valof FREQ_150 - valof FREQ_100)
   \<and> correct_freq (gFreqTable initial_state) (select_index (gFreqTable initial_state) FREQ_150)
        FREQ_150 = FREQ_150"
proof -
  let ?t = "gFreqTable initial_state"
  have r: "representable_table ?t"
    by (simp add: representable_table_def initial_state_def FREQ_eq f32_eval)
  have inc: "valof (inputFreq (?t ! 0)) < valof (inputFreq (?t ! 1))"
    "valof (inputFreq (?t ! 1)) < valof (inputFreq (?t ! 2))"
    "valof (inputFreq (?t ! 2)) < valof (inputFreq (?t ! 3))"
    by (simp_all add: initial_state_def FREQ_eq)
  have e: "inputFreq (?t ! 2) = FREQ_100" "outputFreq (?t ! 2) = FREQ_100"
    "inputFreq (?t ! 3) = FREQ_150" "outputFreq (?t ! 3) = FREQ_150"
    by (simp_all add: initial_state_def)
  have lo: "valof (inputFreq (?t ! 0)) \<le> 50"
    by (simp add: initial_state_def)
  have sel: "select_index ?t (Finite 50) = 2"
    by (simp add: select_index_def initial_state_def FREQ_eq)
  have d: "round32 (valof FREQ_150 - valof FREQ_100) = Finite (valof FREQ_150 - valof FREQ_100)"
    by (simp add: FREQ_eq f32_eval)
  note c = correction_curve [OF r inc, of "Finite 50" 50]
  have b: "valof (inputFreq (?t ! (select_index ?t (Finite 50) - 1))) \<le> 50
          \<and> (50 < valof (inputFreq (?t ! select_index ?t (Finite 50)))
               \<or> select_index ?t (Finite 50) = 3 \<and> valof (inputFreq (?t ! 3)) \<le> 50)"
    using c lo by blast
  have b1: "valof (inputFreq (?t ! 1)) \<le> 50" "50 < valof (inputFreq (?t ! 2))"
    using b unfolding sel by simp_all
  have "\<forall>i \<in> {0, 1, 2 :: nat}.
          correct_freq ?t (select_index ?t (inputFreq (?t ! i))) (inputFreq (?t ! i))
            = outputFreq (?t ! i)"
    using c by blast
  then have m: "correct_freq ?t (select_index ?t FREQ_100) FREQ_100 = FREQ_100"
    using e by force
  have "correct_freq ?t (select_index ?t (inputFreq (?t ! 3))) (inputFreq (?t ! 3))
            = outputFreq (?t ! 3)"
    using c d unfolding e by blast
  then have u: "correct_freq ?t (select_index ?t FREQ_150) FREQ_150 = FREQ_150"
    by (simp only: e)
  show ?thesis
    using r inc lo sel b1 m d u by blast
qed

subsection \<open>Commands\<close>

lemma parse_examples:
  "myParseInt ''0 5000 6000'' = (0, ''5000 6000'')"
  "myParseInt ''5000 6000'' = (5000, ''6000'')"
  "myParseInt ''6000'' = (6000, [])"
  "myParseInt ''1 a b'' = (1, ''a b'')"
  "myParseInt ''a b'' = (0, ''b'')"
  "myParseInt ''b'' = (0, [])"
  "myParseInt ''1 2 3x'' = (1, ''2 3x'')"
  "myParseInt ''2 3x'' = (2, ''3x'')"
  "myParseInt ''3x'' = (3, [])"
  "myParseInt ''5 1 1'' = (5, ''1 1'')"
  "myParseInt ''1 1'' = (1, ''1'')"
  "myParseInt ''1'' = (1, [])"
  "myParseInt ''2 72000 75000'' = (2, ''72000 75000'')"
  "myParseInt ''72000 75000'' = (72000, ''75000'')"
  "myParseInt ''75000'' = (75000, [])"
  "myParseInt ''1 abc 2000'' = (1, ''abc 2000'')"
  "myParseInt ''abc 2000'' = (0, ''bc 2000'')"
  "myParseInt ''bc 2000'' = (0, ''c 2000'')"
  by (simp_all add: myParseInt_def)

lemma initial_table:
  "gFreqTable (initial_state\<lparr>gInputString := l\<rparr>) = gFreqTable initial_state"
  "Serial (initial_state\<lparr>gInputString := l\<rparr>) = []"
  "gInputString (initial_state\<lparr>gInputString := l\<rparr>) = l"
  by (simp_all add: initial_state_def)

lemma configure_spec_examples:
  "command_outcome (configure (initial_state\<lparr>gInputString := ''2 72000 75000''\<rparr>))
     = Inr ((gFreqTable initial_state)[2 := \<lparr>inputFreq = Finite 72, outputFreq = Finite 75\<rparr>],
            [UpdatedValue 2 (Finite 72) (Finite 75)])"
  "command_outcome (configure (initial_state\<lparr>gInputString := ''1 abc 2000''\<rparr>))
     = Inr (gFreqTable initial_state, [FailedToParseOutput])"
  by (simp_all add: command_outcome_def configure_def parse_examples initial_table Let_def
      f32_eval)

text \<open>
  Two facts about every line. A line never updates half an entry: it leaves the table
  as it is or sets both fields of one of the four entries. And a line made of three
  numbers separated by single spaces, with an index of 1, 2 or 3 and values below
  \<open>2^31\<close>, is accepted and sets the entry to the two values divided by 1000 in
  binary32.
\<close>

lemma configure_all_or_nothing:
  assumes "configure s = Inr s'"
  shows "gFreqTable s' = gFreqTable s
       \<or> (\<exists>i a b. i < 4 \<and> gFreqTable s' = (gFreqTable s)[i := \<lparr>inputFreq = a, outputFreq = b\<rparr>])"
proof -
  obtain r1 it1 where p1: "myParseInt (gInputString s) = (r1, it1)"
    by (cases "myParseInt (gInputString s)")
  obtain r2 it2 where p2: "myParseInt it1 = (r2, it2)"
    by (cases "myParseInt it1")
  obtain r3 it3 where p3: "myParseInt it2 = (r3, it3)"
    by (cases "myParseInt it2")
  show ?thesis
  proof (cases "it1 \<noteq> [] \<and> it2 \<noteq> [] \<and> it3 = [] \<and> sint (ucast r1 :: u16) < 4")
    case True
    then have "0 \<le> sint (ucast r1 :: u16)"
      using assms by (simp add: configure_def p1 p2 p3 Let_def split: if_splits)
    then have "nat (sint (ucast r1 :: u16)) < 4"
      using True by linarith
    moreover have "gFreqTable s' = (gFreqTable s)[nat (sint (ucast r1 :: u16)) :=
        \<lparr>inputFreq = fdiv (f32_of_int (sint r2)) (Finite 1000),
         outputFreq = fdiv (f32_of_int (sint r3)) (Finite 1000)\<rparr>]"
      using assms True by (auto simp: configure_def p1 p2 p3 Let_def split: if_splits)
    ultimately show ?thesis
      by blast
  next
    case False
    then have "gFreqTable s' = gFreqTable s"
      using assms by (auto simp: configure_def p1 p2 p3 Let_def split: if_splits)
    then show ?thesis
      by simp
  qed
qed

lemma digit_step:
  assumes "is_digit c"
  shows "(of_nat acc :: u32) * 10 + (of_char c - of_char CHR ''0'')
           = of_nat (acc * 10 + (of_char c - of_char CHR ''0''))"
proof -
  have "(48 :: nat) \<le> of_char c"
    using assms by (simp add: is_digit_def)
  then have "(of_nat (of_char c - 48) :: u32) = of_nat (of_char c) - 48"
    by (simp add: of_nat_diff)
  moreover have "(of_nat (of_char c :: nat) :: u32) = of_char c"
    by (simp add: of_char_def)
  ultimately show ?thesis
    by simp
qed

lemma parse_digits_run:
  assumes "list_all is_digit ds" and "rest = [] \<or> \<not> is_digit (hd rest)"
  shows "parse_digits (of_nat acc) (ds @ rest) = (of_nat (digits_value acc ds), tl rest)"
  using assms
proof (induction ds arbitrary: acc)
  case Nil
  then show ?case
    by (cases rest) (auto simp: is_digit_def)
next
  case (Cons c ds)
  then have c: "is_digit c" and ds: "list_all is_digit ds"
    by simp_all
  have "parse_digits (of_nat acc) ((c # ds) @ rest)
        = parse_digits (of_nat acc * 10 + (of_char c - of_char CHR ''0'')) (ds @ rest)"
    using c by (simp add: is_digit_def)
  also have "\<dots> = parse_digits (of_nat (acc * 10 + (of_char c - of_char CHR ''0''))) (ds @ rest)"
    by (simp only: digit_step [OF c])
  also have "\<dots> = (of_nat (digits_value (acc * 10 + (of_char c - of_char CHR ''0'')) ds), tl rest)"
    by (rule Cons.IH [OF ds Cons.prems(2)])
  finally show ?case
    by simp
qed

lemma skip_spaces_number:
  assumes "number ds"
  shows "skip_spaces (ds @ rest) = ds @ rest"
proof -
  obtain c cs where ds: "ds = c # cs" and "is_digit c"
    using assms by (cases ds) (auto simp: number_def)
  then have "c \<noteq> CHR '' ''"
    by (auto simp: is_digit_def)
  then show ?thesis
    by (simp add: ds)
qed

lemma myParseInt_field:
  assumes "number ds" and "number next"
  shows "myParseInt (ds @ CHR '' '' # next @ rest)
           = (of_nat (digits_value 0 ds), next @ rest)"
proof -
  have "\<not> is_digit CHR '' ''"
    by (simp add: is_digit_def)
  then have "parse_digits (of_nat 0) (ds @ (CHR '' '' # next @ rest))
             = (of_nat (digits_value 0 ds), tl (CHR '' '' # next @ rest))"
    using assms(1) by (intro parse_digits_run) (simp_all add: number_def)
  then show ?thesis
    using skip_spaces_number [OF assms(1), of "CHR '' '' # next @ rest"]
      skip_spaces_number [OF assms(2), of rest]
    by (simp add: myParseInt_def)
qed

lemma myParseInt_last_field:
  assumes "number ds"
  shows "myParseInt ds = (of_nat (digits_value 0 ds), [])"
proof -
  have "parse_digits (of_nat 0) (ds @ []) = (of_nat (digits_value 0 ds), tl [])"
    using assms by (intro parse_digits_run) (simp_all add: number_def)
  then show ?thesis
    using skip_spaces_number [OF assms, of "[]"] by (simp add: myParseInt_def)
qed

lemma sint_of_nat_small:
  assumes "v < 2 ^ 31"
  shows "sint (of_nat v :: u32) = int v"
proof -
  have "v < 4294967296"
    using assms by simp
  then have "unat (of_nat v :: u32) = v"
    by (simp add: unat_of_nat)
  then have u: "uint (of_nat v :: u32) = int v"
    by (simp only: uint_nat)
  have "signed_take_bit 31 (int v) = int v"
    using assms by (intro signed_take_bit_int_eq_self) simp_all
  then show ?thesis
    by (simp only: sint_uint u) simp
qed

lemma index_of_small:
  assumes "v \<in> {1, 2, 3}"
  shows "sint (ucast (of_nat v :: u32) :: u16) = int v"
  using assms by auto

lemma configure_accepts:
  assumes "myParseInt (gInputString s) = (r1, it1)"
    and "myParseInt it1 = (r2, it2)"
    and "myParseInt it2 = (r3, it3)"
    and "it1 \<noteq> []" and "it2 \<noteq> []" and "it3 = []"
    and "sint (ucast r1 :: u16) = int i" and "i < 4"
    and "sint r2 = int a" and "sint r3 = int b"
  shows "configure s =
     Inr (s\<lparr>gFreqTable := (gFreqTable s)[i :=
              \<lparr>inputFreq = fdiv (f32_of_int (int a)) (Finite 1000),
               outputFreq = fdiv (f32_of_int (int b)) (Finite 1000)\<rparr>],
            Serial := Serial s @ [UpdatedValue (int i)
              (fdiv (f32_of_int (int a)) (Finite 1000))
              (fdiv (f32_of_int (int b)) (Finite 1000))]\<rparr>)"
  using assms by (simp add: configure_def Let_def)

lemma configure_well_formed:
  assumes n: "number ds1" "number ds2" "number ds3"
    and idx: "digits_value 0 ds1 \<in> {1, 2, 3}"
    and rng: "digits_value 0 ds2 < 2 ^ 31" "digits_value 0 ds3 < 2 ^ 31"
    and line: "gInputString s = ds1 @ CHR '' '' # ds2 @ CHR '' '' # ds3"
  shows "configure s =
     Inr (s\<lparr>gFreqTable := (gFreqTable s)[digits_value 0 ds1 :=
              \<lparr>inputFreq = fdiv (f32_of_int (int (digits_value 0 ds2))) (Finite 1000),
               outputFreq = fdiv (f32_of_int (int (digits_value 0 ds3))) (Finite 1000)\<rparr>],
            Serial := Serial s @ [UpdatedValue (int (digits_value 0 ds1))
              (fdiv (f32_of_int (int (digits_value 0 ds2))) (Finite 1000))
              (fdiv (f32_of_int (int (digits_value 0 ds3))) (Finite 1000))]\<rparr>)"
proof (rule configure_accepts)
  show "myParseInt (gInputString s)
            = (of_nat (digits_value 0 ds1), ds2 @ CHR '' '' # ds3)"
    using myParseInt_field [OF n(1) n(2), of "CHR '' '' # ds3"] by (simp only: line)
  show "myParseInt (ds2 @ CHR '' '' # ds3) = (of_nat (digits_value 0 ds2), ds3)"
    using myParseInt_field [OF n(2) n(3), of "[]"] by (simp only: append_Nil2)
  show "myParseInt ds3 = (of_nat (digits_value 0 ds3), [])"
    by (rule myParseInt_last_field [OF n(3)])
  show "ds2 @ CHR '' '' # ds3 \<noteq> []" "ds3 \<noteq> []"
    using n(3) by (simp_all add: number_def)
  show "[] = ([] :: string)"
    by (rule refl)
  show "sint (ucast (of_nat (digits_value 0 ds1) :: u32) :: u16) = int (digits_value 0 ds1)"
    by (rule index_of_small [OF idx])
  show "digits_value 0 ds1 < 4"
    using idx by auto
  show "sint (of_nat (digits_value 0 ds2) :: u32) = int (digits_value 0 ds2)"
    by (rule sint_of_nat_small [OF rng(1)])
  show "sint (of_nat (digits_value 0 ds3) :: u32) = int (digits_value 0 ds3)"
    by (rule sint_of_nat_small [OF rng(2)])
qed

text \<open>
  C2. The code does not keep to the format its own comment gives (\<open>INDEX [1..3]\<close>,
  three numbers). The line \<open>0 5000 6000\<close> overwrites entry 0 of the table, the origin
  of the curve, because the only check on the index is \<open>index < 4\<close>. The lines
  \<open>1 a b\<close> and \<open>1 2 3x\<close> are accepted, because \<open>myParseInt\<close> consumes the character
  that ends a run of digits without looking at it. And \<open>5 1 1\<close> is rejected without
  any message. (The values stored are binary32 numbers: 5000 and 6000 divided by 1000
  are 5 and 6, and 2 and 3 divided by 1000 are the binary32 numbers nearest to 0.002
  and 0.003.)
\<close>

theorem configure_accepts_malformed:
  "command_outcome (configure (initial_state\<lparr>gInputString := ''0 5000 6000''\<rparr>))
     = Inr ((gFreqTable initial_state)[0 := \<lparr>inputFreq = Finite 5, outputFreq = Finite 6\<rparr>],
            [UpdatedValue 0 (Finite 5) (Finite 6)])
   \<and> command_outcome (configure (initial_state\<lparr>gInputString := ''1 a b''\<rparr>))
     = Inr ((gFreqTable initial_state)[1 := \<lparr>inputFreq = Finite 0, outputFreq = Finite 0\<rparr>],
            [UpdatedValue 1 (Finite 0) (Finite 0)])
   \<and> command_outcome (configure (initial_state\<lparr>gInputString := ''1 2 3x''\<rparr>))
     = Inr ((gFreqTable initial_state)[1 :=
              \<lparr>inputFreq = Finite (8589935 / 4294967296),
               outputFreq = Finite (6442451 / 2147483648)\<rparr>],
            [UpdatedValue 1 (Finite (8589935 / 4294967296)) (Finite (6442451 / 2147483648))])
   \<and> command_outcome (configure (initial_state\<lparr>gInputString := ''5 1 1''\<rparr>))
     = Inr (gFreqTable initial_state, [])
   \<and> (gFreqTable initial_state)[0 := \<lparr>inputFreq = Finite 5, outputFreq = Finite 6\<rparr>]
     \<noteq> gFreqTable initial_state"
proof -
  have a: "command_outcome (configure (initial_state\<lparr>gInputString := ''0 5000 6000''\<rparr>))
     = Inr ((gFreqTable initial_state)[0 := \<lparr>inputFreq = Finite 5, outputFreq = Finite 6\<rparr>],
            [UpdatedValue 0 (Finite 5) (Finite 6)])"
    by (simp add: command_outcome_def configure_def parse_examples initial_table Let_def
        f32_eval)
  have b: "command_outcome (configure (initial_state\<lparr>gInputString := ''1 a b''\<rparr>))
     = Inr ((gFreqTable initial_state)[1 := \<lparr>inputFreq = Finite 0, outputFreq = Finite 0\<rparr>],
            [UpdatedValue 1 (Finite 0) (Finite 0)])"
    by (simp add: command_outcome_def configure_def parse_examples initial_table Let_def
        f32_eval)
  have c: "command_outcome (configure (initial_state\<lparr>gInputString := ''1 2 3x''\<rparr>))
     = Inr ((gFreqTable initial_state)[1 :=
              \<lparr>inputFreq = Finite (8589935 / 4294967296),
               outputFreq = Finite (6442451 / 2147483648)\<rparr>],
            [UpdatedValue 1 (Finite (8589935 / 4294967296)) (Finite (6442451 / 2147483648))])"
    by (simp add: command_outcome_def configure_def parse_examples initial_table Let_def
        f32_eval)
  have d: "command_outcome (configure (initial_state\<lparr>gInputString := ''5 1 1''\<rparr>))
     = Inr (gFreqTable initial_state, [])"
    by (simp add: command_outcome_def configure_def parse_examples initial_table Let_def
        f32_eval)
  have e: "(gFreqTable initial_state)[0 := \<lparr>inputFreq = Finite 5, outputFreq = Finite 6\<rparr>]
     \<noteq> gFreqTable initial_state"
    by (simp add: initial_state_def)
  show ?thesis
    using a b c d e by (intro conjI)
qed

subsection \<open>The self-test ramp\<close>

lemma round32_nonneg_bound:
  assumes "0 \<le> x" and "x \<le> B" and "B \<le> 1180591620717411303424"
  shows "\<exists>y. round32 x = Finite y \<and> 0 \<le> y \<and> y \<le> 2 * B + 1
           \<and> x - x / 16777216 - 1 / 281474976710656 \<le> y"
proof -
  have "\<bar>x\<bar> < pow2 127"
    unfolding pow2_127 using assms by linarith
  then obtain y where y: "round32 x = Finite y"
    and e: "\<bar>y - x\<bar> \<le> \<bar>x\<bar> / 16777216 + pow2 (- 150)"
    using round32_rel [of x] by blast
  have xa: "\<bar>x\<bar> = x"
    using assms(1) by simp
  have e1: "y - x \<le> x / 16777216 + pow2 (- 150)" and e2: "x - y \<le> x / 16777216 + pow2 (- 150)"
    using e unfolding xa by linarith+
  have "x / 16777216 \<le> x"
    using assms(1) by simp
  then have "y \<le> 2 * B + 1"
    using e1 assms(2) pow2_m150 by linarith
  moreover have "x - x / 16777216 - 1 / 281474976710656 \<le> y"
    using e2 pow2_m150 by linarith
  ultimately show ?thesis
    using y round32_sign(1) [OF y assms(1)] by blast
qed

lemma ramp_freq_range:
  assumes "0 \<le> n" and "n < 4294967296"
  shows "\<exists>f. fadd (f32_of_int 3) (fmul (Finite 300) (fdiv (f32_of_int n) (Finite 1000)))
               = Finite f \<and> 2 \<le> f \<and> f \<le> 7730941132807"
proof -
  have "\<exists>y. round32 (of_int n) = Finite y \<and> 0 \<le> y \<and> y \<le> 2 * 4294967296 + 1
           \<and> of_int n - of_int n / 16777216 - 1 / 281474976710656 \<le> y"
    using assms by (intro round32_nonneg_bound) simp_all
  then obtain y where y: "f32_of_int n = Finite y" and y0: "0 \<le> y" and y1: "y \<le> 8589934593"
    unfolding f32_of_int_def by auto
  have "\<exists>q. round32 (y / 1000) = Finite q \<and> 0 \<le> q \<and> q \<le> 2 * 8589935 + 1
           \<and> y / 1000 - y / 1000 / 16777216 - 1 / 281474976710656 \<le> q"
    using y0 y1 by (intro round32_nonneg_bound) simp_all
  then obtain q where q: "round32 (y / 1000) = Finite q" and q0: "0 \<le> q"
    and q1: "q \<le> 17179871"
    by auto
  have "\<exists>m. round32 (300 * q) = Finite m \<and> 0 \<le> m \<and> m \<le> 2 * 5153961300 + 1
           \<and> 300 * q - 300 * q / 16777216 - 1 / 281474976710656 \<le> m"
    using q0 q1 by (intro round32_nonneg_bound) simp_all
  then obtain m where m: "round32 (300 * q) = Finite m" and m0: "0 \<le> m"
    and m1: "m \<le> 10307922601"
    by auto
  have three: "f32_of_int 3 = Finite 3"
    by (simp add: f32_eval)
  have "\<exists>f. round32 (3 + m) = Finite f \<and> 0 \<le> f \<and> f \<le> 2 * 10307922604 + 1
           \<and> (3 + m) - (3 + m) / 16777216 - 1 / 281474976710656 \<le> f"
    using m0 m1 by (intro round32_nonneg_bound) simp_all
  then obtain f where f: "round32 (3 + m) = Finite f"
    and f1: "f \<le> 20615845209"
    and f0: "(3 + m) - (3 + m) / 16777216 - 1 / 281474976710656 \<le> f"
    by auto
  have "(3 + m) / 16777216 = 3 / 16777216 + m / 16777216"
    by (simp add: add_divide_distrib)
  then have "2 \<le> f"
    using f0 m0 by linarith
  then show ?thesis
    using f f1 by (simp add: y q m three)
qed

lemma ramp_period_in_range:
  assumes "2 \<le> f" and "f \<le> 7730941132807"
  shows "\<exists>period. ramp_period (Finite f) = Inr period"
proof -
  have f0: "0 < f" using assms(1) by linarith
  have "1 / f \<le> 1 / 2"
    using assms(1) by (intro divide_left_mono) simp_all
  then have "\<exists>r. round32 (1 / f) = Finite r \<and> 0 \<le> r \<and> r \<le> 2 * 1 + 1
           \<and> 1 / f - 1 / f / 16777216 - 1 / 281474976710656 \<le> r"
    using f0 by (intro round32_nonneg_bound) simp_all
  then obtain r where r: "round32 (1 / f) = Finite r" and r0: "0 \<le> r" and r1: "r \<le> 3"
    by auto
  let ?t = "8796093 / 2199023255552 :: real"
  have "r / ?t \<le> 3 / ?t"
    using r1 by (intro divide_right_mono) simp_all
  then have "r / ?t \<le> 750001"
    by simp
  then have "\<exists>p. round32 (r / ?t) = Finite p \<and> 0 \<le> p \<and> p \<le> 2 * 750001 + 1
           \<and> r / ?t - r / ?t / 16777216 - 1 / 281474976710656 \<le> p"
    using r0 by (intro round32_nonneg_bound) simp_all
  then obtain p where p: "round32 (r / ?t) = Finite p" and "0 \<le> p" and "p \<le> 1500003"
    by auto
  then show ?thesis
    using f0 by (simp add: ramp_period_def TICK_VALUE_eq r)
qed

lemma raise_period: "\<exists>period. ramp_period (raise_freq now) = Inr period"
proof -
  have "0 \<le> uint now" and "uint now < 4294967296"
    using uint_lt2p [of now] by simp_all
  then obtain f where "raise_freq now = Finite f" and "2 \<le> f" and "f \<le> 7730941132807"
    unfolding raise_freq_def using ramp_freq_range by blast
  then show ?thesis
    using ramp_period_in_range by simp
qed

lemma lower_period: "\<exists>period. ramp_period (lower_freq now) = Inr period"
proof -
  have "0 \<le> uint (1000 - (now - 1000))" and "uint (1000 - (now - 1000)) < 4294967296"
    using uint_lt2p [of "1000 - (now - 1000)"] by simp_all
  then obtain f where "lower_freq now = Finite f" and "2 \<le> f" and "f \<le> 7730941132807"
    unfolding lower_freq_def using ramp_freq_range by blast
  then show ?thesis
    using ramp_period_in_range by simp
qed

lemma raise_freq_0: "raise_freq 0 = Finite 3"
  by (simp add: raise_freq_def f32_eval)

lemma ramp_period_3: "ramp_period (Finite 3) = Inr 83333"
  by (simp add: ramp_period_def TICK_VALUE_eq f32_eval)

lemma loop_RAISE_state:
  "\<exists>s'. loop_RAISE now s = Inr s'
      \<and> gState s' = (if now > 1000 then OPEN_CER_LOWER else gState s)"
proof -
  obtain period where "ramp_period (raise_freq now) = Inr period"
    using raise_period by blast
  then show ?thesis
    by (simp add: loop_RAISE_def Let_def)
qed

lemma loop_LOWER_state:
  "\<exists>s'. loop_LOWER now s = Inr s'
      \<and> gState s' = (if now > 2000 then NORMAL else gState s)"
proof -
  obtain period where "ramp_period (lower_freq now) = Inr period"
    using lower_period by blast
  then show ?thesis
    by (simp add: loop_LOWER_def Let_def)
qed

lemma loop_RAISE_at_0:
  "\<exists>s'. loop_RAISE 0 s = Inr s' \<and> gOutputPeriod s' = 83333 \<and> \<not> gStopped s'
      \<and> OCR1A (TIMER1_COMPA_vect s') = OCR1A s' + 17797"
  by (simp add: loop_RAISE_def raise_freq_0 ramp_period_3 Let_def TIMER1_COMPA_vect_def
      ucast_sum_16)

lemma to_uint32_fault:
  assumes "to_uint32 a = Inl f"
  shows "f = FloatToIntOutOfRange"
  using assms by (cases a) (simp_all split: if_splits)

lemma loop_tick_outcome:
  "case loop_tick now s of
     Inr s' \<Rightarrow> gState s' = gState s
           \<and> gInputString s' = gInputString s \<and> gStringComplete s' = gStringComplete s
   | Inl f \<Rightarrow> f = FloatToIntOutOfRange"
  by (auto simp: loop_tick_def tick_input_def tick_filter_def tick_output_def output_period_def
      Let_def split: sum.splits if_splits dest: to_uint32_fault)

lemma configure_outcome:
  "case configure s of
     Inr s' \<Rightarrow> gState s' = gState s
   | Inl f \<Rightarrow> \<exists>i<0. f = TableIndexOutOfBounds i"
  by (auto simp: configure_def Let_def split_beta split: sum.splits if_splits)

lemma loop_command_outcome:
  "case loop_command repr s of
     Inr s' \<Rightarrow> gState s' = gState s
   | Inl f \<Rightarrow> \<exists>i<0. f = TableIndexOutOfBounds i"
  using configure_outcome [where s = "s\<lparr>Serial := Serial s @ [LineReceived]\<rparr>"]
  by (auto simp: loop_command_def Let_def split: sum.splits if_splits)

lemma loop_NORMAL:
  assumes "gState s = NORMAL"
  shows "case loop repr now s of
           Inr s' \<Rightarrow> gState s' = NORMAL
         | Inl f \<Rightarrow> f = FloatToIntOutOfRange \<or> (\<exists>i<0. f = TableIndexOutOfBounds i)"
proof (cases "loop_tick now (s\<lparr>gLoopPerSec := gLoopPerSec s + 1\<rparr>)")
  case (Inl f)
  then show ?thesis
    using assms loop_tick_outcome [where now = now and s = "s\<lparr>gLoopPerSec := gLoopPerSec s + 1\<rparr>"]
    by (simp add: loop_def)
next
  case (Inr s1)
  then have "gState s1 = NORMAL"
    using assms loop_tick_outcome [where now = now and s = "s\<lparr>gLoopPerSec := gLoopPerSec s + 1\<rparr>"] by simp
  then show ?thesis
    using assms Inr loop_command_outcome [where repr = repr and s = s1]
    by (auto simp: loop_def split: sum.splits)
qed

lemma negative_index_command:
  "loop_command repr (s\<lparr>gInputString := ''65535 0 0'', gStringComplete := True\<rparr>)
     = Inl (TableIndexOutOfBounds (- 1))"
proof -
  have "myParseInt ''65535 0 0'' = (65535, ''0 0'')" "myParseInt ''0 0'' = (0, ''0'')"
    "myParseInt ''0'' = (0, [])"
    by (simp_all add: myParseInt_def)
  then show ?thesis
    by (simp add: loop_command_def configure_def Let_def)
qed

lemma handlers_gState:
  "gState (TIMER1_CAPT_vect s) = gState s"
  "gState (TIMER1_OVF_vect s) = gState s"
  "gState (TIMER1_COMPA_vect s) = gState s"
  by (simp_all add: TIMER1_CAPT_vect_def TIMER1_OVF_vect_def TIMER1_COMPA_vect_def Let_def)

text \<open>
  C1 as stated fails: the initialiser is \<open>State gState = NORMAL\<close>, and \<open>setup\<close>
  does not assign \<open>gState\<close>, so the machine is not in \<open>OPEN_CER_RAISE\<close> at boot.
\<close>

theorem boot_state_is_normal:
  "gState initial_state = NORMAL \<and> gState initial_state \<noteq> OPEN_CER_RAISE"
  by (simp add: initial_state_def)

text \<open>
  C1 (as the code has it). The machine starts in \<open>NORMAL\<close>. No interrupt handler
  changes the state (\<open>serialEvent\<close>, the one other function of the sketch, only
  appends to the input line). A pass of \<open>loop\<close> that begins in \<open>NORMAL\<close> ends in
  \<open>NORMAL\<close>, unless it is one of the two kinds of pass that end in a fault, where the
  C++ defines no state after the pass: it converts a floating value outside the range
  of \<open>uint32_t\<close>, or it stores through a negative index outside the table, as the
  command \<open>65535 0 0\<close> does from every state (the index is an \<open>int\<close> of 16 bits, so
  65535 is \<open>-1\<close>, and the only check is \<open>index < 4\<close>).

  The two ramp branches: the rising ramp computes a frequency of exactly 3 Hz at
  \<open>now = 0\<close> and stores 83333 ticks in \<open>gOutputPeriod\<close>, the full period of 3 Hz in
  timer ticks; the compare handler adds \<open>gOutputPeriod\<close> to the 16-bit register
  \<open>OCR1A\<close> at every toggle, which advances it by \<open>83333 mod 2^16 = 17797\<close> ticks. A
  pass in \<open>OPEN_CER_RAISE\<close> always completes and moves to \<open>OPEN_CER_LOWER\<close> exactly
  when \<open>now > 1000\<close>; a pass in \<open>OPEN_CER_LOWER\<close> always completes and moves to
  \<open>NORMAL\<close> exactly when \<open>now > 2000\<close>.
\<close>

theorem self_test_machine:
  "gState initial_state = NORMAL
   \<and> (gState s = NORMAL \<longrightarrow>
        (case loop repr now s of
           Inr s' \<Rightarrow> gState s' = NORMAL
         | Inl f \<Rightarrow> f = FloatToIntOutOfRange \<or> (\<exists>i<0. f = TableIndexOutOfBounds i)))
   \<and> loop_command repr (s\<lparr>gInputString := ''65535 0 0'', gStringComplete := True\<rparr>)
        = Inl (TableIndexOutOfBounds (- 1))
   \<and> gState (TIMER1_CAPT_vect s) = gState s
   \<and> gState (TIMER1_OVF_vect s) = gState s
   \<and> gState (TIMER1_COMPA_vect s) = gState s
   \<and> raise_freq 0 = Finite 3
   \<and> (gState s = OPEN_CER_RAISE \<longrightarrow>
        (\<exists>s'. loop repr 0 s = Inr s' \<and> gOutputPeriod s' = 83333 \<and> \<not> gStopped s'
              \<and> OCR1A (TIMER1_COMPA_vect s') = OCR1A s' + 17797)
        \<and> (\<exists>s'. loop repr now s = Inr s'
              \<and> gState s' = (if now > 1000 then OPEN_CER_LOWER else OPEN_CER_RAISE)))
   \<and> (gState s = OPEN_CER_LOWER \<longrightarrow>
        (\<exists>s'. loop repr now s = Inr s'
              \<and> gState s' = (if now > 2000 then NORMAL else OPEN_CER_LOWER)))"
proof -
  have up: "(\<exists>s'. loop repr 0 s = Inr s' \<and> gOutputPeriod s' = 83333 \<and> \<not> gStopped s'
              \<and> OCR1A (TIMER1_COMPA_vect s') = OCR1A s' + 17797)
        \<and> (\<exists>s'. loop repr now s = Inr s'
              \<and> gState s' = (if now > 1000 then OPEN_CER_LOWER else OPEN_CER_RAISE))"
    if "gState s = OPEN_CER_RAISE"
    using that loop_RAISE_state [of now s] loop_RAISE_at_0 [of s] by (auto simp: loop_def)
  have down: "\<exists>s'. loop repr now s = Inr s'
              \<and> gState s' = (if now > 2000 then NORMAL else OPEN_CER_LOWER)"
    if "gState s = OPEN_CER_LOWER"
    using that loop_LOWER_state [of now s] by (auto simp: loop_def)
  have normal: "case loop repr now s of
           Inr s' \<Rightarrow> gState s' = NORMAL
         | Inl f \<Rightarrow> f = FloatToIntOutOfRange \<or> (\<exists>i<0. f = TableIndexOutOfBounds i)"
    if "gState s = NORMAL"
    using that by (rule loop_NORMAL)
  have boot: "gState initial_state = NORMAL"
    by (simp add: initial_state_def)
  show ?thesis
    using up down normal boot raise_freq_0 handlers_gState [of s]
      negative_index_command [of repr s]
    by blast
qed

theorem self_test_machine_witness:
  "gState initial_state = NORMAL
   \<and> loop (\<lambda>_. []) 0 initial_state = Inr (initial_state\<lparr>gLoopPerSec := 1\<rparr>)
   \<and> gState (initial_state\<lparr>gLoopPerSec := 1\<rparr>) = NORMAL
   \<and> gState (initial_state\<lparr>gInputPeriod := 1000, gCaptureLive := True\<rparr>) = NORMAL
   \<and> (\<exists>s'. loop (\<lambda>_. []) 101 (initial_state\<lparr>gInputPeriod := 1000, gCaptureLive := True\<rparr>)
              = Inr s'
          \<and> gState s' = NORMAL \<and> gLastInputFreq s' = Finite (5 / 2))
   \<and> gState (initial_state\<lparr>gState := OPEN_CER_RAISE\<rparr>) = OPEN_CER_RAISE
   \<and> (\<exists>s'. loop (\<lambda>_. []) 1001 (initial_state\<lparr>gState := OPEN_CER_RAISE\<rparr>) = Inr s'
          \<and> gState s' = OPEN_CER_LOWER)
   \<and> gState (initial_state\<lparr>gState := OPEN_CER_LOWER\<rparr>) = OPEN_CER_LOWER
   \<and> (\<exists>s'. loop (\<lambda>_. []) 2001 (initial_state\<lparr>gState := OPEN_CER_LOWER\<rparr>) = Inr s'
          \<and> gState s' = NORMAL)"
proof -
  let ?up = "initial_state\<lparr>gState := OPEN_CER_RAISE\<rparr>"
  let ?down = "initial_state\<lparr>gState := OPEN_CER_LOWER\<rparr>"
  let ?b = "initial_state\<lparr>gInputPeriod := 1000, gCaptureLive := True\<rparr>"
  let ?b1 = "?b\<lparr>gLoopPerSec := gLoopPerSec ?b + 1\<rparr>"
  have run: "loop (\<lambda>_. []) 0 initial_state = Inr (initial_state\<lparr>gLoopPerSec := 1\<rparr>)"
    by (simp add: loop_def loop_tick_def loop_command_def initial_state_def)
  have st: "gState initial_state = NORMAL" "gState ?up = OPEN_CER_RAISE"
    "gState ?down = OPEN_CER_LOWER" "gState ?b = NORMAL"
    by (simp_all add: initial_state_def)
  have t: "(1001 :: u32) > 1000" "(2001 :: u32) > 2000"
    by simp_all
  have tb: "(101 :: u32) - ucast (gLastUpdate ?b1) > 100"
    by (simp add: initial_state_def)
  have sb: "\<not> stop_condition (ucast (gOverflowCounter ?b1)) (gInputPeriod ?b1)"
    by (simp add: initial_state_def stop_condition_def)
  have fb: "gInputPeriod ?b1 = 1000" "gLastInputFreq ?b1 = Finite 0"
    "gFreqTable ?b1 = gFreqTable initial_state" "gStringComplete ?b1 = False"
    by (simp_all add: initial_state_def)
  have ob: "output_period (gFreqTable ?b1) (gInputPeriod ?b1)
          (filter_freq (input_freq (gInputPeriod ?b1)) (gLastInputFreq ?b1)) = Inr 100000"
    by (simp only: fb tick_examples output_period_examples)
  obtain s1 where s1: "loop_tick 101 ?b1 = Inr s1"
    and l1: "gLastInputFreq s1 = Finite (5 / 2)"
    using loop_tick_run [OF tb sb ob] by (auto simp only: fb tick_examples)
  have "gStringComplete s1 = gStringComplete ?b1"
    using loop_tick_outcome [where now = 101 and s = ?b1] s1 by simp
  then have "\<not> gStringComplete s1"
    by (simp only: fb) simp
  then have c1: "loop_command (\<lambda>_. []) s1 = Inr s1"
    by (simp add: loop_command_def)
  have tickpass: "loop (\<lambda>_. []) 101 ?b = Inr s1"
    using s1 c1 st(4) by (simp add: loop_def)
  have "case loop (\<lambda>_. []) 101 ?b of
           Inr s' \<Rightarrow> gState s' = NORMAL
         | Inl f \<Rightarrow> f = FloatToIntOutOfRange \<or> (\<exists>i<0. f = TableIndexOutOfBounds i)"
    using self_test_machine [of ?b "\<lambda>_. []" 101] st(4) by blast
  then have n1: "gState s1 = NORMAL"
    by (simp only: tickpass sum.case)
  have "case loop (\<lambda>_. []) 0 initial_state of
           Inr s' \<Rightarrow> gState s' = NORMAL
         | Inl f \<Rightarrow> f = FloatToIntOutOfRange \<or> (\<exists>i<0. f = TableIndexOutOfBounds i)"
    using self_test_machine [of initial_state "\<lambda>_. []" 0] st(1) by blast
  then have n0: "gState (initial_state\<lparr>gLoopPerSec := 1\<rparr>) = NORMAL"
    by (simp only: run sum.case)
  have u: "\<exists>s'. loop (\<lambda>_. []) 1001 ?up = Inr s'
      \<and> gState s' = (if (1001 :: u32) > 1000 then OPEN_CER_LOWER else OPEN_CER_RAISE)"
    using self_test_machine [of ?up "\<lambda>_. []" 1001] st(2) by blast
  have d: "\<exists>s'. loop (\<lambda>_. []) 2001 ?down = Inr s'
      \<and> gState s' = (if (2001 :: u32) > 2000 then NORMAL else OPEN_CER_LOWER)"
    using self_test_machine [of ?down "\<lambda>_. []" 2001] st(3) by blast
  have u': "\<exists>s'. loop (\<lambda>_. []) 1001 ?up = Inr s' \<and> gState s' = OPEN_CER_LOWER"
    using u by (simp only: t if_True)
  have d': "\<exists>s'. loop (\<lambda>_. []) 2001 ?down = Inr s' \<and> gState s' = NORMAL"
    using d by (simp only: t if_True)
  have b': "\<exists>s'. loop (\<lambda>_. []) 101 ?b = Inr s'
          \<and> gState s' = NORMAL \<and> gLastInputFreq s' = Finite (5 / 2)"
    using tickpass n1 l1 by blast
  show ?thesis
    by (intro conjI) (fact st run n0 b' u' d')+
qed

end
